theory Spec2Isabelle
  imports Complex_Main "HOL-Library.Multiset"
begin

section \<open>Data model\<close>

text \<open>
  The grid cutter keeps a list of movable grid lines over a loaded raster image.
  JavaScript numbers that hold pixel coordinates are modelled as exact reals, image
  and canvas dimensions (\<open>img.width\<close>, \<open>img.height\<close>, \<open>canvas.width\<close>) and the
  slider-driven row and column counts as naturals. Rounding of IEEE doubles and the
  values NaN and Infinity are outside this model.
\<close>

record GridLine =
  position :: real
  isHorizontal :: bool

record ImageSize =
  width :: nat
  height :: nat

datatype cursor = Default | NsResize | EwResize

datatype error = TypeError

text \<open>
  The state of the \<open>GridCanvas\<close> component (its \<open>useState\<close> cells, the size of
  its canvas element and the cursor style it writes).
\<close>

record GridCanvas =
  imageSize :: ImageSize
  gridLines :: "GridLine list"
  activeLine :: "nat option"
  hoveredLine :: "int option"
  canvasWidth :: nat
  canvasHeight :: nat
  cursorStyle :: cursor

text \<open>A mouse event and the bounding client rectangle of the canvas element.\<close>

record MouseEvent =
  clientX :: real
  clientY :: real

record DOMRect =
  left :: real
  top :: real
  rectWidth :: real
  rectHeight :: real

text \<open>
  What \<open>onGridLinesChange(lines, width, height)\<close> hands to the parent component.
\<close>

type_synonym notification = "GridLine list \<times> nat \<times> nat"

section \<open>Grid regeneration\<close>

text \<open>
  The two loops that fill \<open>newGridLines\<close>: horizontal lines for \<open>i = 1 .. rows - 1\<close>
  at \<open>(i / rows) * height\<close>, then vertical lines for \<open>i = 1 .. columns - 1\<close> at
  \<open>(i / columns) * width\<close>. The same loops stand in the regeneration effect of
  \<open>GridCanvas\<close> and in \<open>handleResetGrid\<close> of the page.
\<close>

definition newGridLines :: "nat \<Rightarrow> nat \<Rightarrow> ImageSize \<Rightarrow> GridLine list" where
  "newGridLines rows columns sz =
     map (\<lambda>i. \<lparr>position = (real i / real rows) * real (height sz), isHorizontal = True\<rparr>)
       [1..<rows] @
     map (\<lambda>i. \<lparr>position = (real i / real columns) * real (width sz), isHorizontal = False\<rparr>)
       [1..<columns]"

text \<open>
  The effect of \<open>GridCanvas\<close> with dependencies \<open>rows\<close>, \<open>columns\<close>, \<open>imageSize\<close>:
  it returns early while the image size is unknown, otherwise replaces the line list
  and notifies the parent.
\<close>

definition regenerationEffect ::
  "nat \<Rightarrow> nat \<Rightarrow> GridCanvas \<Rightarrow> GridCanvas \<times> notification option" where
  "regenerationEffect rows columns c =
     (if width (imageSize c) = 0 \<or> height (imageSize c) = 0 then (c, None)
      else
        let new = newGridLines rows columns (imageSize c)
        in (c\<lparr>gridLines := new\<rparr>,
            Some (new, width (imageSize c), height (imageSize c))))"

section \<open>Pointer handling\<close>

text \<open>
  Viewport coordinates are mapped into raster pixels by the natural/displayed ratio.
  A canvas that receives pointer events is displayed with a positive width and height;
  for a rectangle of width or height 0 JavaScript divides to Infinity or NaN, which
  the reals here do not represent.
\<close>

definition rasterX :: "MouseEvent \<Rightarrow> DOMRect \<Rightarrow> GridCanvas \<Rightarrow> real" where
  "rasterX e rect c = (clientX e - left rect) * (real (canvasWidth c) / rectWidth rect)"

definition rasterY :: "MouseEvent \<Rightarrow> DOMRect \<Rightarrow> GridCanvas \<Rightarrow> real" where
  "rasterY e rect c = (clientY e - top rect) * (real (canvasHeight c) / rectHeight rect)"

text \<open>The perpendicular distance computed inside both \<open>forEach\<close> callbacks.\<close>

definition distance :: "real \<Rightarrow> real \<Rightarrow> GridLine \<Rightarrow> real" where
  "distance x y line =
     (if isHorizontal line then \<bar>y - position line\<bar> else \<bar>x - position line\<bar>)"

text \<open>
  The \<open>forEach\<close> over the lines: the accumulator is the pair of the mutable locals
  (\<open>closestLine\<close>/\<open>nearestLine\<close>, \<open>minDistance\<close>); \<open>index\<close> counts up from the
  first element.
\<close>

fun scanLines :: "real \<Rightarrow> real \<Rightarrow> GridLine list \<Rightarrow> nat \<Rightarrow> int \<times> real \<Rightarrow> int \<times> real" where
  "scanLines x y [] index acc = acc"
| "scanLines x y (line # rest) index (closest, minDistance) =
     (if distance x y line < minDistance
      then scanLines x y rest (Suc index) (int index, distance x y line)
      else scanLines x y rest (Suc index) (closest, minDistance))"

text \<open>The search starts with \<open>closestLine = -1\<close> and \<open>minDistance = 10\<close>.\<close>

definition nearestLine :: "real \<Rightarrow> real \<Rightarrow> GridLine list \<Rightarrow> int" where
  "nearestLine x y lines = fst (scanLines x y lines 0 (- 1, 10))"

text \<open>\<open>Math.max(0, Math.min(v, bound))\<close>, the constraint applied to a dragged line.\<close>

definition constrain :: "real \<Rightarrow> nat \<Rightarrow> real" where
  "constrain v bound = max 0 (min v (real bound))"

definition handleMouseDown :: "MouseEvent \<Rightarrow> DOMRect \<Rightarrow> GridCanvas \<Rightarrow> GridCanvas" where
  "handleMouseDown e rect c =
     (let x = rasterX e rect c;
          y = rasterY e rect c;
          closestLine = nearestLine x y (gridLines c)
      in if closestLine \<noteq> - 1 then c\<lparr>activeLine := Some (nat closestLine)\<rparr> else c)"

text \<open>
  \<open>handleMouseMove\<close> first updates the hovered line and the cursor, then, while a line
  is active, replaces that one slot of a copy of the list and notifies the parent.
  An active index with no line behind it makes \<open>line.isHorizontal\<close> throw.
\<close>

definition handleMouseMove ::
  "MouseEvent \<Rightarrow> DOMRect \<Rightarrow> GridCanvas \<Rightarrow> error + GridCanvas \<times> notification option" where
  "handleMouseMove e rect c =
     (let x = rasterX e rect c;
          y = rasterY e rect c;
          nearest = nearestLine x y (gridLines c);
          c1 = c\<lparr>hoveredLine := Some nearest,
                 cursorStyle :=
                   (if nearest \<noteq> - 1
                    then (if isHorizontal (gridLines c ! nat nearest) then NsResize else EwResize)
                    else Default)\<rparr>
      in case activeLine c of
           None \<Rightarrow> Inr (c1, None)
         | Some a \<Rightarrow>
             if a < length (gridLines c) then
               let line = gridLines c ! a;
                   newPosition =
                     (if isHorizontal line then constrain y (height (imageSize c))
                      else constrain x (width (imageSize c)));
                   updatedLines = (gridLines c)[a := line\<lparr>position := newPosition\<rparr>]
               in Inr (c1\<lparr>gridLines := updatedLines\<rparr>,
                       Some (updatedLines, width (imageSize c), height (imageSize c)))
             else Inl TypeError)"

definition handleMouseUp :: "GridCanvas \<Rightarrow> GridCanvas" where
  "handleMouseUp c = c\<lparr>activeLine := None\<rparr>"

definition handleMouseLeave :: "GridCanvas \<Rightarrow> GridCanvas" where
  "handleMouseLeave c = c\<lparr>hoveredLine := None, activeLine := None\<rparr>"

text \<open>
  The bound of a line is the image height for a horizontal line and the image width
  for a vertical one.
\<close>

definition bound :: "ImageSize \<Rightarrow> GridLine \<Rightarrow> nat" where
  "bound sz line = (if isHorizontal line then height sz else width sz)"

definition inBounds :: "ImageSize \<Rightarrow> GridLine list \<Rightarrow> bool" where
  "inBounds sz lines =
     list_all (\<lambda>line. 0 \<le> position line \<and> position line \<le> real (bound sz line)) lines"

section \<open>The page component\<close>

text \<open>
  The state of \<open>Home\<close> that the grid depends on. Its own \<open>gridLines\<close> and
  \<open>imageSize\<close> cells are written \<open>homeGridLines\<close> and \<open>homeImageSize\<close>; they are
  what the cutting path reads.
\<close>

record Home =
  imageUrl :: "string option"
  rows :: nat
  columns :: nat
  homeGridLines :: "GridLine list"
  homeImageSize :: ImageSize

definition handleGridChange :: "nat \<Rightarrow> nat \<Rightarrow> Home \<Rightarrow> Home" where
  "handleGridChange newRows newColumns h = h\<lparr>rows := newRows, columns := newColumns\<rparr>"

definition handleGridLinesChange :: "notification \<Rightarrow> Home \<Rightarrow> Home" where
  "handleGridLinesChange n h =
     (case n of (lines, w, ht) \<Rightarrow>
        h\<lparr>homeGridLines := lines, homeImageSize := \<lparr>width = w, height = ht\<rparr>\<rparr>)"

text \<open>
  \<open>handleResetGrid\<close> returns early without an image size or an image URL (the empty
  string is falsy as well); otherwise it stores fresh lines in the state of \<open>Home\<close>.
\<close>

definition handleResetGrid :: "Home \<Rightarrow> Home" where
  "handleResetGrid h =
     (if width (homeImageSize h) = 0 \<or> height (homeImageSize h) = 0
         \<or> imageUrl h = None \<or> imageUrl h = Some []
      then h
      else h\<lparr>homeGridLines := newGridLines (rows h) (columns h) (homeImageSize h)\<rparr>)"

section \<open>The page and the canvas together\<close>

text \<open>
  \<open>Home\<close> renders \<open>GridCanvas\<close> with the props \<open>imageUrl\<close>, \<open>rows\<close>, \<open>columns\<close> and
  \<open>onGridLinesChange = handleGridLinesChange\<close>; no line list is passed down.
\<close>

record App =
  home :: Home
  canvas :: GridCanvas

definition notify :: "notification option \<Rightarrow> Home \<Rightarrow> Home" where
  "notify n h = (case n of None \<Rightarrow> h | Some m \<Rightarrow> handleGridLinesChange m h)"

text \<open>
  After a state change of \<open>Home\<close> the canvas component is rendered again, and its
  regeneration effect runs when one of the props among its dependencies differs from
  the previous render (\<open>handleGridLinesChange\<close> is a \<open>useCallback\<close> with no
  dependencies, so it never differs).
\<close>

definition rerender :: "Home \<Rightarrow> App \<Rightarrow> App" where
  "rerender previous a =
     (if rows (home a) = rows previous \<and> columns (home a) = columns previous then a
      else
        (case regenerationEffect (rows (home a)) (columns (home a)) (canvas a) of
           (c, n) \<Rightarrow> \<lparr>home = notify n (home a), canvas = c\<rparr>))"

definition clickResetGrid :: "App \<Rightarrow> App" where
  "clickResetGrid a = rerender (home a) (a\<lparr>home := handleResetGrid (home a)\<rparr>)"

definition changeGrid :: "nat \<Rightarrow> nat \<Rightarrow> App \<Rightarrow> App" where
  "changeGrid newRows newColumns a =
     rerender (home a) (a\<lparr>home := handleGridChange newRows newColumns (home a)\<rparr>)"

text \<open>
  \<open>img.onload\<close> of the canvas component sizes the canvas and stores the image size;
  the changed \<open>imageSize\<close> then runs the regeneration effect.
\<close>

definition imageLoaded :: "nat \<Rightarrow> nat \<Rightarrow> App \<Rightarrow> App" where
  "imageLoaded w ht a =
     (case regenerationEffect (rows (home a)) (columns (home a))
             ((canvas a)\<lparr>canvasWidth := w, canvasHeight := ht,
                          imageSize := \<lparr>width = w, height = ht\<rparr>\<rparr>) of
        (c, n) \<Rightarrow> \<lparr>home = notify n (home a), canvas = c\<rparr>)"

definition mouseDown :: "MouseEvent \<Rightarrow> DOMRect \<Rightarrow> App \<Rightarrow> App" where
  "mouseDown e rect a = a\<lparr>canvas := handleMouseDown e rect (canvas a)\<rparr>"

definition mouseMove :: "MouseEvent \<Rightarrow> DOMRect \<Rightarrow> App \<Rightarrow> error + App" where
  "mouseMove e rect a =
     (case handleMouseMove e rect (canvas a) of
        Inl err \<Rightarrow> Inl err
      | Inr (c, n) \<Rightarrow> Inr \<lparr>home = notify n (home a), canvas = c\<rparr>)"

definition mouseUp :: "App \<Rightarrow> App" where
  "mouseUp a = a\<lparr>canvas := handleMouseUp (canvas a)\<rparr>"

text \<open>The page as first rendered with an image URL: three rows, three columns, nothing loaded.\<close>

definition initialApp :: "string \<Rightarrow> App" where
  "initialApp url =
     \<lparr>home = \<lparr>imageUrl = Some url, rows = 3, columns = 3, homeGridLines = [],
               homeImageSize = \<lparr>width = 0, height = 0\<rparr>\<rparr>,
      canvas = \<lparr>imageSize = \<lparr>width = 0, height = 0\<rparr>, gridLines = [], activeLine = None,
                 hoveredLine = None, canvasWidth = 300, canvasHeight = 150,
                 cursorStyle = Default\<rparr>\<rparr>"

text \<open>
  A session used as a running example: a 300 by 300 image is loaded into the initial
  page, the first horizontal line (at 100) is pressed, dragged to 150 and released.
  The canvas is displayed at its natural size.
\<close>

definition naturalRect :: DOMRect where
  "naturalRect = \<lparr>left = 0, top = 0, rectWidth = 300, rectHeight = 300\<rparr>"

definition loadedApp :: App where
  "loadedApp = imageLoaded 300 300 (initialApp ''blob:image'')"

definition draggedApp :: App where
  "draggedApp =
     (case mouseMove \<lparr>clientX = 50, clientY = 150\<rparr> naturalRect
             (mouseDown \<lparr>clientX = 50, clientY = 100\<rparr> naturalRect loadedApp) of
        Inl err \<Rightarrow> loadedApp
      | Inr a \<Rightarrow> mouseUp a)"

section \<open>Cutting on the client\<close>

text \<open>
  The source rectangle handed to \<open>drawImage\<close> for one cell: the arguments
  \<open>startX\<close>, \<open>startY\<close>, \<open>cellWidth\<close>, \<open>cellHeight\<close>.
\<close>

record Cell =
  startX :: real
  startY :: real
  cellWidth :: real
  cellHeight :: real

datatype cutError = ImageLoadFailed | NoCanvasContext

text \<open>
  \<open>canvas.width\<close> and \<open>canvas.height\<close> are unsigned long attributes: a number
  assigned to them is truncated towards zero and reduced modulo \<open>2^32\<close>.
\<close>

definition toUnsignedLong :: "real \<Rightarrow> nat" where
  "toUnsignedLong v = nat ((if v < 0 then - \<lfloor>- v\<rfloor> else \<lfloor>v\<rfloor>) mod 2 ^ 32)"

text \<open>
  What a cut needs from the browser: whether the image behind the URL loads and its
  natural size, whether a 2d context can be had, and the data URL that results from
  drawing a source rectangle of the image onto a canvas of the given pixel width and
  height and encoding the canvas.
\<close>

record 'u Browser =
  imageLoads :: bool
  imgWidth :: nat
  imgHeight :: nat
  hasContext :: bool
  toDataURL :: "nat \<times> nat \<Rightarrow> Cell \<Rightarrow> 'u"

text \<open>
  The rectangles of \<open>cutImageWithGridLines\<close>: positions are split by orientation and
  sorted ascending (the comparator \<open>a - b\<close>), 0 and the image bound are added at the
  ends, and the outer loop runs over consecutive horizontal positions, the inner one
  over consecutive vertical positions.
\<close>

definition allHorizontalPositions :: "GridLine list \<Rightarrow> nat \<Rightarrow> real list" where
  "allHorizontalPositions lines imageHeight =
     0 # sort (map position (filter isHorizontal lines)) @ [real imageHeight]"

definition allVerticalPositions :: "GridLine list \<Rightarrow> nat \<Rightarrow> real list" where
  "allVerticalPositions lines imageWidth =
     0 # sort (map position (filter (\<lambda>line. \<not> isHorizontal line) lines)) @ [real imageWidth]"

text \<open>The body of the inner loop for the indices \<open>i\<close> and \<open>j\<close>.\<close>

definition cellAt :: "real list \<Rightarrow> real list \<Rightarrow> nat \<Rightarrow> nat \<Rightarrow> Cell" where
  "cellAt vs hs i j =
     \<lparr>startX = vs ! j, startY = hs ! i,
      cellWidth = vs ! (j + 1) - vs ! j, cellHeight = hs ! (i + 1) - hs ! i\<rparr>"

definition cellsWithGridLines :: "GridLine list \<Rightarrow> nat \<Rightarrow> nat \<Rightarrow> Cell list" where
  "cellsWithGridLines lines imageWidth imageHeight =
     (let hs = allHorizontalPositions lines imageHeight;
          vs = allVerticalPositions lines imageWidth
      in concat (map (\<lambda>i. map (\<lambda>j. cellAt vs hs i j) [0..<length vs - 1])
                   [0..<length hs - 1]))"

text \<open>
  Inside the loops the canvas is resized to the cell (\<open>canvas.width = cellWidth\<close>)
  before the cell is drawn and encoded.
\<close>

definition cutImageWithGridLines ::
  "'u Browser \<Rightarrow> GridLine list \<Rightarrow> nat \<Rightarrow> nat \<Rightarrow> cutError + 'u list" where
  "cutImageWithGridLines b lines imageWidth imageHeight =
     (if \<not> imageLoads b then Inl ImageLoadFailed
      else if \<not> hasContext b then Inl NoCanvasContext
      else Inr (map (\<lambda>cell.
                  toDataURL b
                    (toUnsignedLong (cellWidth cell), toUnsignedLong (cellHeight cell)) cell)
                (cellsWithGridLines lines imageWidth imageHeight)))"

text \<open>
  The rectangles of \<open>cutImageIntoGrid\<close>: cell width and height are the plain
  quotients \<open>img.width / columns\<close> and \<open>img.height / rows\<close>. The canvas is
  sized once, before the loops, with these two numbers.
\<close>

definition cellsIntoGrid :: "nat \<Rightarrow> nat \<Rightarrow> nat \<Rightarrow> nat \<Rightarrow> Cell list" where
  "cellsIntoGrid imageWidth imageHeight rowCount columnCount =
     (let w = real imageWidth / real columnCount;
          h = real imageHeight / real rowCount
      in concat
           (map (\<lambda>row.
              map (\<lambda>col.
                \<lparr>startX = real col * w, startY = real row * h, cellWidth = w, cellHeight = h\<rparr>)
                [0..<columnCount])
              [0..<rowCount]))"

definition cutImageIntoGrid :: "'u Browser \<Rightarrow> nat \<Rightarrow> nat \<Rightarrow> cutError + 'u list" where
  "cutImageIntoGrid b rowCount columnCount =
     (if \<not> imageLoads b then Inl ImageLoadFailed
      else if \<not> hasContext b then Inl NoCanvasContext
      else Inr (map (toDataURL b
                     (toUnsignedLong (real (imgWidth b) / real columnCount),
                      toUnsignedLong (real (imgHeight b) / real rowCount)))
                (cellsIntoGrid (imgWidth b) (imgHeight b) rowCount columnCount)))"

text \<open>
  \<open>handleClientSideCut\<close> of the page: the custom lines when there are any and the size
  is known, the uniform grid otherwise; nothing without an image URL.
\<close>

definition handleClientSideCut :: "'u Browser \<Rightarrow> Home \<Rightarrow> (cutError + 'u list) option" where
  "handleClientSideCut b h =
     (if imageUrl h = None \<or> imageUrl h = Some [] then None
      else if 0 < length (homeGridLines h) \<and> 0 < width (homeImageSize h)
                \<and> 0 < height (homeImageSize h)
      then Some (cutImageWithGridLines b (homeGridLines h)
                   (width (homeImageSize h)) (height (homeImageSize h)))
      else Some (cutImageIntoGrid b (rows h) (columns h)))"

text \<open>A point lies in a cell when it is inside the half-open source rectangle.\<close>

definition inside :: "Cell \<Rightarrow> real \<Rightarrow> real \<Rightarrow> bool" where
  "inside c px py \<longleftrightarrow>
     startX c \<le> px \<and> px < startX c + cellWidth c \<and>
     startY c \<le> py \<and> py < startY c + cellHeight c"

section \<open>Archive entries\<close>

text \<open>
  The decimal digits of a number inside a template literal, and the entry name
  \<open>image_<n>.png\<close>.
\<close>

function decimal :: "nat \<Rightarrow> string" where
  "decimal n =
     (if n < 10 then [char_of (48 + n)]
      else decimal (n div 10) @ [char_of (48 + n mod 10)])"
  by pat_completeness auto
termination
  by (relation "measure id") auto

declare decimal.simps [simp del]

definition imageName :: "nat \<Rightarrow> string" where
  "imageName n = ''image_'' @ decimal n @ ''.png''"

text \<open>
  The archive under construction is the list of its entries in insertion order.
  \<open>zip.file(name, data)\<close> of the archive library overwrites the entry of that name
  when there is one and appends a new entry otherwise.
\<close>

fun zipFile :: "string \<Rightarrow> 'b \<Rightarrow> (string \<times> 'b) list \<Rightarrow> (string \<times> 'b) list" where
  "zipFile name data [] = [(name, data)]"
| "zipFile name data ((n, d) # rest) =
     (if n = name then (n, data) # rest else (n, d) # zipFile name data rest)"

section \<open>Packaging on the client\<close>

text \<open>\<open>dataUrl.split(',')\<close>: the pieces between commas, at least one.\<close>

fun splitComma :: "string \<Rightarrow> string list" where
  "splitComma [] = [[]]"
| "splitComma (c # cs) =
     (if c = CHR '','' then [] # splitComma cs
      else (case splitComma cs of
              [] \<Rightarrow> [[c]]
            | part # parts \<Rightarrow> (c # part) # parts))"

text \<open>
  \<open>dataUrl.split(',')[1]\<close> as \<open>atob\<close> receives it: a missing second piece is
  \<open>undefined\<close>, which the call turns into the string of that name.
\<close>

definition payload :: "string \<Rightarrow> string" where
  "payload dataUrl =
     (case splitComma dataUrl of
        first # data # others \<Rightarrow> data
      | _ \<Rightarrow> ''undefined'')"

text \<open>
  The outer loop of \<open>b64toBlob\<close> with its default slice size of 512: each slice of
  the decoded characters becomes an array of their character codes.
\<close>

function byteArrays :: "string \<Rightarrow> nat \<Rightarrow> nat list list" where
  "byteArrays byteCharacters offset =
     (if offset < length byteCharacters
      then map of_char (take 512 (drop offset byteCharacters))
             # byteArrays byteCharacters (offset + 512)
      else [])"
  by pat_completeness auto
termination
  by (relation "measure (\<lambda>(byteCharacters, offset). length byteCharacters - offset)") auto

declare byteArrays.simps [simp del]

text \<open>
  \<open>atob\<close> is the browser's decoder, \<open>None\<close> when it throws. The blob holds the
  byte arrays one after the other.
\<close>

definition b64toBlob :: "(string \<Rightarrow> string option) \<Rightarrow> string \<Rightarrow> nat list option" where
  "b64toBlob atob b64Data =
     (case atob b64Data of
        None \<Rightarrow> None
      | Some byteCharacters \<Rightarrow> Some (concat (byteArrays byteCharacters 0)))"

text \<open>The \<open>forEach\<close> over the data URLs; a throwing decoder ends it.\<close>

fun addImages ::
  "(string \<Rightarrow> string option) \<Rightarrow> string list \<Rightarrow> nat \<Rightarrow> (string \<times> nat list) list
     \<Rightarrow> (string \<times> nat list) list option" where
  "addImages atob [] index archive = Some archive"
| "addImages atob (dataUrl # rest) index archive =
     (case b64toBlob atob (payload dataUrl) of
        None \<Rightarrow> None
      | Some blob \<Rightarrow>
          addImages atob rest (Suc index) (zipFile (imageName (index + 1)) blob archive))"

datatype packError = InvalidCharacterError

text \<open>The result is what \<open>saveAs\<close> receives: the file name and the archive.\<close>

definition createAndDownloadZip ::
  "(string \<Rightarrow> string option) \<Rightarrow> string list \<Rightarrow> string
     \<Rightarrow> packError + string \<times> (string \<times> nat list) list" where
  "createAndDownloadZip atob gridImages fileName =
     (case addImages atob gridImages 0 [] of
        None \<Rightarrow> Inl InvalidCharacterError
      | Some archive \<Rightarrow> Inr (fileName @ ''.zip'', archive))"

text \<open>
  A decoder for examples that knows two payloads: \<open>QUI=\<close> is the base64 form of
  the two bytes \<open>AB\<close>, and the empty payload decodes to nothing.
\<close>

definition exampleAtob :: "string \<Rightarrow> string option" where
  "exampleAtob data =
     (if data = ''QUI='' then Some ''AB'' else if data = [] then Some [] else None)"

section \<open>Cutting on the server\<close>

text \<open>The argument of \<open>extract\<close>: integer pixel offsets and sizes.\<close>

record Region =
  regionLeft :: int
  regionTop :: int
  regionWidth :: int
  regionHeight :: int

text \<open>
  The fields of the posted form. \<open>rowsField\<close> and \<open>columnsField\<close> hold what
  \<open>parseInt\<close> returns, with \<open>None\<close> for NaN (a missing or non-numeric field).
\<close>

record 'f FormData =
  imageField :: "'f option"
  rowsField :: "int option"
  columnsField :: "int option"

text \<open>
  The image library as used by the route: \<open>metadata\<close> gives the optional width and
  height, \<open>extractRegion\<close> (the chain \<open>clone().extract(..).toBuffer()\<close>) the
  encoded bytes of a region; \<open>None\<close> stands for a rejected promise.
\<close>

record ('f, 'b) Sharp =
  metadata :: "'f \<Rightarrow> (nat option \<times> nat option) option"
  extractRegion :: "'f \<Rightarrow> Region \<Rightarrow> 'b option"

text \<open>A JSON error with its status and message, or the archive as the response body.\<close>

datatype 'b Response = Json nat string | ZipBody "(string \<times> 'b) list"

text \<open>
  The two loops of the route: \<open>cellWidth\<close> and \<open>cellHeight\<close> are the floored
  quotients; each cell's entry name is built from \<open>row * columns + col + 1\<close>, which
  is positive inside the loops.
\<close>

definition serverRegions :: "nat \<Rightarrow> nat \<Rightarrow> int \<Rightarrow> int \<Rightarrow> (string \<times> Region) list" where
  "serverRegions w h rowCount columnCount =
     (let cellW = \<lfloor>real w / real_of_int columnCount\<rfloor>;
          cellH = \<lfloor>real h / real_of_int rowCount\<rfloor>
      in concat
           (map (\<lambda>row.
              map (\<lambda>col.
                (imageName (nat (int row * columnCount + int col + 1)),
                 \<lparr>regionLeft = int col * cellW, regionTop = int row * cellH,
                  regionWidth = cellW, regionHeight = cellH\<rparr>))
                [0..<nat columnCount])
              [0..<nat rowCount]))"

text \<open>
  The extraction promises settle in an order the route does not control; \<open>order\<close>
  lists the cell indices in the order their \<open>then\<close> callbacks add entries to the
  archive. A rejected extraction rejects \<open>Promise.all\<close>, and the \<open>catch\<close> block
  answers with status 500.
\<close>

definition assemble :: "nat list \<Rightarrow> (string \<times> 'b) list \<Rightarrow> (string \<times> 'b) list" where
  "assemble order cellBuffers =
     fold (\<lambda>n z. case cellBuffers ! n of (name, buf) \<Rightarrow> zipFile name buf z)
       (filter (\<lambda>n. n < length cellBuffers) order) []"

fun allResolved :: "('a \<times> 'b option) list \<Rightarrow> ('a \<times> 'b) list option" where
  "allResolved [] = Some []"
| "allResolved ((a, None) # rest) = None"
| "allResolved ((a, Some b) # rest) =
     (case allResolved rest of None \<Rightarrow> None | Some bufs \<Rightarrow> Some ((a, b) # bufs))"

definition POST :: "('f, 'b) Sharp \<Rightarrow> nat list \<Rightarrow> 'f FormData \<Rightarrow> 'b Response" where
  "POST sharp order form =
     (case (imageField form, rowsField form, columnsField form) of
        (Some imageFile, Some rowCount, Some columnCount) \<Rightarrow>
          if rowCount = 0 \<or> columnCount = 0 then Json 400 ''Missing required parameters''
          else
            (case metadata sharp imageFile of
               None \<Rightarrow> Json 500 ''Failed to process image''
             | Some (Some w, Some h) \<Rightarrow>
                 if w = 0 \<or> h = 0 then Json 400 ''Could not get image dimensions''
                 else
                   (case allResolved
                           (map (\<lambda>(name, region). (name, extractRegion sharp imageFile region))
                              (serverRegions w h rowCount columnCount)) of
                      None \<Rightarrow> Json 500 ''Failed to process image''
                    | Some cellBuffers \<Rightarrow> ZipBody (assemble order cellBuffers))
             | Some _ \<Rightarrow> Json 400 ''Could not get image dimensions'')
      | _ \<Rightarrow> Json 400 ''Missing required parameters'')"

text \<open>A region as a source rectangle, and whether a pixel lies in a region.\<close>

definition cellOfRegion :: "Region \<Rightarrow> Cell" where
  "cellOfRegion g =
     \<lparr>startX = real_of_int (regionLeft g), startY = real_of_int (regionTop g),
      cellWidth = real_of_int (regionWidth g), cellHeight = real_of_int (regionHeight g)\<rparr>"

definition covers :: "Region \<Rightarrow> int \<Rightarrow> int \<Rightarrow> bool" where
  "covers g px py \<longleftrightarrow>
     regionLeft g \<le> px \<and> px < regionLeft g + regionWidth g \<and>
     regionTop g \<le> py \<and> py < regionTop g + regionHeight g"

text \<open>The same tests with the point first, to be used as predicates on a list.\<close>

definition pointIn :: "real \<Rightarrow> real \<Rightarrow> Cell \<Rightarrow> bool" where
  "pointIn px py c = inside c px py"

definition pixelIn :: "int \<Rightarrow> int \<Rightarrow> Region \<Rightarrow> bool" where
  "pixelIn px py g = covers g px py"

text \<open>An image library for examples: every image is 10 by 10 and a region is its own content.\<close>

definition tenByTen :: "(unit, Region) Sharp" where
  "tenByTen = \<lparr>metadata = (\<lambda>f. Some (Some 10, Some 10)), extractRegion = (\<lambda>f g. Some g)\<rparr>"

text \<open>
  Three lines in drag order for examples, two horizontal ones out of order, and a
  browser whose data URL is the pair of the canvas size and the source rectangle.
\<close>

definition crossedLines :: "GridLine list" where
  "crossedLines =
     [\<lparr>position = 200, isHorizontal = True\<rparr>, \<lparr>position = 100, isHorizontal = False\<rparr>,
      \<lparr>position = 50, isHorizontal = True\<rparr>]"

definition pairingBrowser :: "((nat \<times> nat) \<times> Cell) Browser" where
  "pairingBrowser =
     \<lparr>imageLoads = True, imgWidth = 300, imgHeight = 300, hasContext = True, toDataURL = Pair\<rparr>"

section \<open>Clamping and the position invariant\<close>

lemma constrain_range: "0 \<le> constrain v b \<and> constrain v b \<le> real b"
  by (simp add: constrain_def)

lemma constrain_idem: "constrain (constrain v b) b = constrain v b"
  by (simp add: constrain_def)

lemma constrain_fixed: "0 \<le> v \<Longrightarrow> v \<le> real b \<Longrightarrow> constrain v b = v"
  by (simp add: constrain_def)

lemma inBounds_update:
  assumes "inBounds sz lines" and "0 \<le> position l" and "position l \<le> real (bound sz l)"
  shows "inBounds sz (lines[a := l])"
  using assms unfolding inBounds_def list_all_iff
  by (auto dest!: subsetD [OF set_update_subset_insert])

lemma fraction_in_bound:
  fixes i n b :: nat
  assumes "i < n"
  shows "0 \<le> real i / real n * real b" and "real i / real n * real b \<le> real b"
proof -
  show "0 \<le> real i / real n * real b" by simp
  have "real i / real n \<le> 1" using assms by simp
  then have "real i / real n * real b \<le> 1 * real b"
    by (intro mult_right_mono) simp_all
  then show "real i / real n * real b \<le> real b" by simp
qed

lemma inBounds_newGridLines: "inBounds sz (newGridLines r k sz)"
proof -
  have "0 \<le> position l \<and> position l \<le> real (bound sz l)"
    if "l \<in> set (newGridLines r k sz)" for l
  proof -
    from that consider
      i where "1 \<le> i" "i < r"
        "l = \<lparr>position = real i / real r * real (height sz), isHorizontal = True\<rparr>"
    | i where "1 \<le> i" "i < k"
        "l = \<lparr>position = real i / real k * real (width sz), isHorizontal = False\<rparr>"
      unfolding newGridLines_def by auto
    then show ?thesis
    proof cases
      case 1
      with fraction_in_bound [of i r "height sz"] show ?thesis
        by (simp add: bound_def)
    next
      case 2
      with fraction_in_bound [of i k "width sz"] show ?thesis
        by (simp add: bound_def)
    qed
  qed
  then show ?thesis
    unfolding inBounds_def list_all_iff by blast
qed

lemma handleMouseMove_active:
  assumes "activeLine c = Some a" and "a < length (gridLines c)"
  shows "\<exists>c' n. handleMouseMove e rect c = Inr (c', n) \<and>
           imageSize c' = imageSize c \<and>
           gridLines c' =
             (gridLines c)[a := (gridLines c ! a)\<lparr>position :=
                constrain (if isHorizontal (gridLines c ! a) then rasterY e rect c
                           else rasterX e rect c)
                  (bound (imageSize c) (gridLines c ! a))\<rparr>] \<and>
           n = Some (gridLines c', width (imageSize c), height (imageSize c))"
  using assms by (simp add: handleMouseMove_def Let_def bound_def)

lemma handleMouseMove_idle:
  assumes "activeLine c = None"
  shows "\<exists>c'. handleMouseMove e rect c = Inr (c', None) \<and>
           imageSize c' = imageSize c \<and> gridLines c' = gridLines c"
  using assms by (simp add: handleMouseMove_def Let_def)

lemma handleMouseMove_inBounds:
  assumes inv: "inBounds (imageSize c) (gridLines c)"
    and res: "handleMouseMove e rect c = Inr (c', n)"
  shows "inBounds (imageSize c') (gridLines c')"
proof (cases "activeLine c")
  case None
  from handleMouseMove_idle [OF None, of e rect] res inv show ?thesis by auto
next
  case (Some a)
  show ?thesis
  proof (cases "a < length (gridLines c)")
    case True
    let ?l = "gridLines c ! a"
    let ?v = "if isHorizontal ?l then rasterY e rect c else rasterX e rect c"
    let ?l' = "?l\<lparr>position := constrain ?v (bound (imageSize c) ?l)\<rparr>"
    from handleMouseMove_active [OF Some True, of e rect] res
    have eq: "imageSize c' = imageSize c" "gridLines c' = (gridLines c)[a := ?l']"
      by auto
    have "bound (imageSize c) ?l' = bound (imageSize c) ?l"
      by (simp add: bound_def)
    then have "0 \<le> position ?l'" "position ?l' \<le> real (bound (imageSize c) ?l')"
      using constrain_range [of ?v "bound (imageSize c) ?l"] by simp_all
    from inBounds_update [OF inv this] eq show ?thesis by simp
  next
    case False
    with Some res show ?thesis by (simp add: handleMouseMove_def Let_def)
  qed
qed

lemma regenerationEffect_inBounds:
  assumes "inBounds (imageSize c) (gridLines c)"
  shows "inBounds (imageSize (fst (regenerationEffect r k c)))
           (gridLines (fst (regenerationEffect r k c)))"
  using assms by (simp add: regenerationEffect_def Let_def inBounds_newGridLines)

lemma handleResetGrid_inBounds:
  assumes "inBounds (homeImageSize h) (homeGridLines h)"
  shows "inBounds (homeImageSize (handleResetGrid h)) (homeGridLines (handleResetGrid h))"
  using assms by (simp add: handleResetGrid_def inBounds_newGridLines)

section \<open>Evaluating the example session\<close>

lemma upt_3: "[Suc 0..<3] = [1, 2]"
  by (simp add: upt_conv_Cons)

lemma loadedApp_eval:
  "loadedApp =
     \<lparr>home = \<lparr>imageUrl = Some ''blob:image'', rows = 3, columns = 3,
               homeGridLines = newGridLines 3 3 \<lparr>width = 300, height = 300\<rparr>,
               homeImageSize = \<lparr>width = 300, height = 300\<rparr>\<rparr>,
      canvas = \<lparr>imageSize = \<lparr>width = 300, height = 300\<rparr>,
                 gridLines = newGridLines 3 3 \<lparr>width = 300, height = 300\<rparr>,
                 activeLine = None, hoveredLine = None, canvasWidth = 300, canvasHeight = 300,
                 cursorStyle = Default\<rparr>\<rparr>"
  by (simp add: loadedApp_def imageLoaded_def initialApp_def regenerationEffect_def Let_def
      notify_def handleGridLinesChange_def)

lemma defaultLines:
  "newGridLines 3 3 \<lparr>width = 300, height = 300\<rparr> =
     [\<lparr>position = 100, isHorizontal = True\<rparr>, \<lparr>position = 200, isHorizontal = True\<rparr>,
      \<lparr>position = 100, isHorizontal = False\<rparr>, \<lparr>position = 200, isHorizontal = False\<rparr>]"
  by (simp add: newGridLines_def upt_3)

lemma draggedApp_eval:
  "draggedApp =
     \<lparr>home = \<lparr>imageUrl = Some ''blob:image'', rows = 3, columns = 3,
               homeGridLines =
                 [\<lparr>position = 150, isHorizontal = True\<rparr>, \<lparr>position = 200, isHorizontal = True\<rparr>,
                  \<lparr>position = 100, isHorizontal = False\<rparr>, \<lparr>position = 200, isHorizontal = False\<rparr>],
               homeImageSize = \<lparr>width = 300, height = 300\<rparr>\<rparr>,
      canvas = \<lparr>imageSize = \<lparr>width = 300, height = 300\<rparr>,
                 gridLines =
                 [\<lparr>position = 150, isHorizontal = True\<rparr>, \<lparr>position = 200, isHorizontal = True\<rparr>,
                  \<lparr>position = 100, isHorizontal = False\<rparr>, \<lparr>position = 200, isHorizontal = False\<rparr>],
                 activeLine = None, hoveredLine = Some (- 1), canvasWidth = 300, canvasHeight = 300,
                 cursorStyle = Default\<rparr>\<rparr>"
  by (simp add: draggedApp_def loadedApp_eval defaultLines mouseMove_def mouseDown_def mouseUp_def
      handleMouseMove_def handleMouseDown_def handleMouseUp_def naturalRect_def rasterX_def rasterY_def
      nearestLine_def distance_def constrain_def notify_def handleGridLinesChange_def Let_def)

lemma newGridLines_length: "length (newGridLines r k sz) = (r - 1) + (k - 1)"
  by (simp add: newGridLines_def)

lemma newGridLines_horizontal:
  assumes "1 \<le> i" and "i < r"
  shows "newGridLines r k sz ! (i - 1) =
           \<lparr>position = real i / real r * real (height sz), isHorizontal = True\<rparr>"
  using assms by (simp add: newGridLines_def nth_append)

lemma newGridLines_vertical:
  assumes "1 \<le> j" and "j < k"
  shows "newGridLines r k sz ! ((r - 1) + (j - 1)) =
           \<lparr>position = real j / real k * real (width sz), isHorizontal = False\<rparr>"
proof -
  let ?hs = "map (\<lambda>i. \<lparr>position = real i / real r * real (height sz), isHorizontal = True\<rparr>)
               [1..<r]"
  let ?vs = "map (\<lambda>i. \<lparr>position = real i / real k * real (width sz), isHorizontal = False\<rparr>)
               [1..<k]"
  have len: "length ?hs = r - 1" by simp
  have "newGridLines r k sz ! ((r - 1) + (j - 1)) = (?hs @ ?vs) ! (length ?hs + (j - 1))"
    unfolding newGridLines_def len ..
  also have "\<dots> = ?vs ! (j - 1)" by (rule nth_append_length_plus)
  also have "\<dots> = \<lparr>position = real j / real k * real (width sz), isHorizontal = False\<rparr>"
  proof -
    have "[1..<k] ! (j - 1) = 1 + (j - 1)"
      by (rule nth_upt) (use assms in simp)
    with assms show ?thesis by simp
  qed
  finally show ?thesis .
qed

lemma scanLines_spec:
  "scanLines x y ls k (c, m) = (c', m') \<Longrightarrow>
     (c' = c \<and> m' = m \<and> (\<forall>j<length ls. m \<le> distance x y (ls ! j))) \<or>
     (\<exists>i<length ls. c' = int (k + i) \<and> m' = distance x y (ls ! i) \<and> m' < m \<and>
        (\<forall>j<i. m' < distance x y (ls ! j)) \<and>
        (\<forall>j<length ls. m' \<le> distance x y (ls ! j)))"
proof (induction ls arbitrary: k c m)
  case Nil
  then show ?case by simp
next
  case (Cons l ls)
  show ?case
  proof (cases "distance x y l < m")
    case True
    with Cons.prems have "scanLines x y ls (Suc k) (int k, distance x y l) = (c', m')"
      by simp
    from Cons.IH [OF this] show ?thesis
    proof (elim disjE conjE exE)
      assume "c' = int k" "m' = distance x y l"
        "\<forall>j<length ls. distance x y l \<le> distance x y (ls ! j)"
      with True have "0 < length (l # ls) \<and> c' = int (k + 0) \<and>
          m' = distance x y ((l # ls) ! 0) \<and> m' < m \<and>
          (\<forall>j<0. m' < distance x y ((l # ls) ! j)) \<and>
          (\<forall>j<length (l # ls). m' \<le> distance x y ((l # ls) ! j))"
        by (auto simp: nth_Cons')
      then show ?thesis by blast
    next
      fix i
      assume "i < length ls" "c' = int (Suc k + i)" "m' = distance x y (ls ! i)"
        "m' < distance x y l" "\<forall>j<i. m' < distance x y (ls ! j)"
        "\<forall>j<length ls. m' \<le> distance x y (ls ! j)"
      with True have "Suc i < length (l # ls) \<and> c' = int (k + Suc i) \<and>
          m' = distance x y ((l # ls) ! Suc i) \<and> m' < m \<and>
          (\<forall>j<Suc i. m' < distance x y ((l # ls) ! j)) \<and>
          (\<forall>j<length (l # ls). m' \<le> distance x y ((l # ls) ! j))"
        by (auto simp: nth_Cons')
      then show ?thesis by blast
    qed
  next
    case False
    with Cons.prems have "scanLines x y ls (Suc k) (c, m) = (c', m')"
      by simp
    from Cons.IH [OF this] show ?thesis
    proof (elim disjE conjE exE)
      assume "c' = c" "m' = m" "\<forall>j<length ls. m \<le> distance x y (ls ! j)"
      with False show ?thesis by (auto simp: nth_Cons')
    next
      fix i
      assume "i < length ls" "c' = int (Suc k + i)" "m' = distance x y (ls ! i)"
        "m' < m" "\<forall>j<i. m' < distance x y (ls ! j)"
        "\<forall>j<length ls. m' \<le> distance x y (ls ! j)"
      with False have "Suc i < length (l # ls) \<and> c' = int (k + Suc i) \<and>
          m' = distance x y ((l # ls) ! Suc i) \<and> m' < m \<and>
          (\<forall>j<Suc i. m' < distance x y ((l # ls) ! j)) \<and>
          (\<forall>j<length (l # ls). m' \<le> distance x y ((l # ls) ! j))"
        by (auto simp: nth_Cons')
      then show ?thesis by blast
    qed
  qed
qed

lemma nearestLine_spec:
  "(nearestLine x y ls = - 1 \<and> (\<forall>j<length ls. 10 \<le> distance x y (ls ! j))) \<or>
   (\<exists>i<length ls. nearestLine x y ls = int i \<and> distance x y (ls ! i) < 10 \<and>
      (\<forall>j<i. distance x y (ls ! i) < distance x y (ls ! j)) \<and>
      (\<forall>j<length ls. distance x y (ls ! i) \<le> distance x y (ls ! j)))"
proof -
  obtain c' m' where res: "scanLines x y ls 0 (- 1, 10) = (c', m')"
    by (cases "scanLines x y ls 0 (- 1, 10)")
  from scanLines_spec [OF res] res show ?thesis
    unfolding nearestLine_def by auto
qed


section \<open>Dragging keeps positions inside the image\<close>

text \<open>
  Claim C4. Whatever the pointer coordinates of a move event are, the line being
  dragged ends at a position between 0 and the image height (horizontal line) or the
  image width (vertical line); the constraint is idempotent and fixes both ends of the
  range; and a line list whose positions all lie within their bounds stays so under a
  drag update, under the regeneration effect and under the reset of the page.
\<close>

theorem drag_position_within_bounds:
  "(activeLine c = Some a \<and> a < length (gridLines c) \<longrightarrow>
      (\<exists>c' n. handleMouseMove e rect c = Inr (c', n) \<and>
         isHorizontal (gridLines c' ! a) = isHorizontal (gridLines c ! a) \<and>
         0 \<le> position (gridLines c' ! a) \<and>
         position (gridLines c' ! a) \<le>
           real (if isHorizontal (gridLines c ! a) then height (imageSize c)
                 else width (imageSize c)))) \<and>
   constrain (constrain v b) b = constrain v b \<and>
   constrain 0 b = 0 \<and> constrain (real b) b = real b \<and>
   (inBounds (imageSize c) (gridLines c) \<and> handleMouseMove e rect c = Inr (d, m) \<longrightarrow>
      inBounds (imageSize d) (gridLines d)) \<and>
   (inBounds (imageSize c) (gridLines c) \<longrightarrow>
      inBounds (imageSize (fst (regenerationEffect r k c)))
        (gridLines (fst (regenerationEffect r k c)))) \<and>
   (inBounds (homeImageSize h) (homeGridLines h) \<longrightarrow>
      inBounds (homeImageSize (handleResetGrid h)) (homeGridLines (handleResetGrid h)))"
proof -
  have drag: "\<exists>c' n. handleMouseMove e rect c = Inr (c', n) \<and>
         isHorizontal (gridLines c' ! a) = isHorizontal (gridLines c ! a) \<and>
         0 \<le> position (gridLines c' ! a) \<and>
         position (gridLines c' ! a) \<le>
           real (if isHorizontal (gridLines c ! a) then height (imageSize c)
                 else width (imageSize c))"
    if act: "activeLine c = Some a" and len: "a < length (gridLines c)"
  proof -
    let ?l = "gridLines c ! a"
    let ?v = "if isHorizontal ?l then rasterY e rect c else rasterX e rect c"
    from handleMouseMove_active [OF act len, of e rect]
    obtain c' n where res: "handleMouseMove e rect c = Inr (c', n)"
      and lines: "gridLines c' =
        (gridLines c)[a := ?l\<lparr>position := constrain ?v (bound (imageSize c) ?l)\<rparr>]"
      by blast
    from lines len
    have at: "gridLines c' ! a = ?l\<lparr>position := constrain ?v (bound (imageSize c) ?l)\<rparr>"
      by simp
    have "0 \<le> position (gridLines c' ! a)"
      and "position (gridLines c' ! a) \<le> real (bound (imageSize c) ?l)"
      and "isHorizontal (gridLines c' ! a) = isHorizontal ?l"
      using constrain_range [of ?v "bound (imageSize c) ?l"] by (simp_all add: at)
    with res show ?thesis unfolding bound_def by blast
  qed
  show ?thesis
    using drag handleMouseMove_inBounds [of c e rect d m]
      regenerationEffect_inBounds [of c r k] handleResetGrid_inBounds [of h]
    by (simp add: constrain_idem constrain_fixed)
qed

theorem drag_position_within_bounds_witness:
  "activeLine ((canvas loadedApp)\<lparr>activeLine := Some 2\<rparr>) = Some 2 \<and>
   2 < length (gridLines ((canvas loadedApp)\<lparr>activeLine := Some 2\<rparr>)) \<and>
   inBounds (imageSize (canvas loadedApp)) (gridLines (canvas loadedApp)) \<and>
   inBounds (homeImageSize (home loadedApp)) (homeGridLines (home loadedApp)) \<and>
   (\<exists>c' n. handleMouseMove \<lparr>clientX = 500, clientY = 10\<rparr> naturalRect
        ((canvas loadedApp)\<lparr>activeLine := Some 2\<rparr>) = Inr (c', n) \<and>
      position (gridLines c' ! 2) \<le> 300 \<and> inBounds (imageSize c') (gridLines c')) \<and>
   inBounds (imageSize (fst (regenerationEffect 2 2 (canvas loadedApp))))
     (gridLines (fst (regenerationEffect 2 2 (canvas loadedApp)))) \<and>
   inBounds (homeImageSize (handleResetGrid (home loadedApp)))
     (homeGridLines (handleResetGrid (home loadedApp)))"
proof -
  let ?c = "(canvas loadedApp)\<lparr>activeLine := Some 2\<rparr>"
  let ?e = "\<lparr>clientX = 500, clientY = 10\<rparr>"
  have act: "activeLine ?c = Some 2" by simp
  have len: "2 < length (gridLines ?c)" by (simp add: loadedApp_eval defaultLines)
  have inv: "inBounds (imageSize (canvas loadedApp)) (gridLines (canvas loadedApp))"
    by (simp add: loadedApp_eval inBounds_newGridLines)
  have inv': "inBounds (imageSize ?c) (gridLines ?c)"
    using inv by simp
  have hinv: "inBounds (homeImageSize (home loadedApp)) (homeGridLines (home loadedApp))"
    by (simp add: loadedApp_eval inBounds_newGridLines)
  note all = drag_position_within_bounds [where c = ?c and a = 2 and e = ?e
      and rect = naturalRect and h = "home loadedApp"]
  from all act len obtain c' n where
    res: "handleMouseMove ?e naturalRect ?c = Inr (c', n)"
    and pos: "position (gridLines c' ! 2) \<le>
      real (if isHorizontal (gridLines ?c ! 2) then height (imageSize ?c)
            else width (imageSize ?c))"
    by blast
  from pos have le: "position (gridLines c' ! 2) \<le> 300"
    by (simp add: loadedApp_eval defaultLines)
  from all inv' res have moved: "inBounds (imageSize c') (gridLines c')" by blast
  from drag_position_within_bounds [where c = "canvas loadedApp" and r = 2 and k = 2] inv
  have regen: "inBounds (imageSize (fst (regenerationEffect 2 2 (canvas loadedApp))))
     (gridLines (fst (regenerationEffect 2 2 (canvas loadedApp))))"
    by blast
  from all hinv have reset: "inBounds (homeImageSize (handleResetGrid (home loadedApp)))
     (homeGridLines (handleResetGrid (home loadedApp)))"
    by blast
  from act len inv hinv res le moved regen reset show ?thesis by blast
qed

section \<open>A drag touches one slot of the list\<close>

text \<open>
  Claim C8. A drag update of the active line at index \<open>i\<close> returns a list of the same
  length in which slot \<open>i\<close> holds the old line with its position replaced by the
  constrained pointer coordinate and its orientation kept, every other slot holds what
  it held before (so the stored order is not re-sorted), and the parent is told exactly
  this list. The sorting inside the cutting function works on extracted positions and
  returns cells, never a line list.
\<close>

theorem drag_changes_one_slot:
  assumes "activeLine c = Some i" and "i < length (gridLines c)"
  shows "\<exists>c' n. handleMouseMove e rect c = Inr (c', n) \<and>
           length (gridLines c') = length (gridLines c) \<and>
           position (gridLines c' ! i) =
             constrain (if isHorizontal (gridLines c ! i) then rasterY e rect c
                        else rasterX e rect c)
               (if isHorizontal (gridLines c ! i) then height (imageSize c)
                else width (imageSize c)) \<and>
           isHorizontal (gridLines c' ! i) = isHorizontal (gridLines c ! i) \<and>
           (\<forall>j<length (gridLines c). j \<noteq> i \<longrightarrow> gridLines c' ! j = gridLines c ! j) \<and>
           n = Some (gridLines c', width (imageSize c), height (imageSize c))"
proof -
  from handleMouseMove_active [OF assms, of e rect]
  obtain c' n where res: "handleMouseMove e rect c = Inr (c', n)"
    and lines: "gridLines c' =
      (gridLines c)[i := (gridLines c ! i)\<lparr>position :=
         constrain (if isHorizontal (gridLines c ! i) then rasterY e rect c
                    else rasterX e rect c)
           (bound (imageSize c) (gridLines c ! i))\<rparr>]"
    and sent: "n = Some (gridLines c', width (imageSize c), height (imageSize c))"
    by blast
  have "length (gridLines c') = length (gridLines c)"
    by (simp add: lines)
  moreover have "position (gridLines c' ! i) =
      constrain (if isHorizontal (gridLines c ! i) then rasterY e rect c
                 else rasterX e rect c)
        (if isHorizontal (gridLines c ! i) then height (imageSize c)
         else width (imageSize c))"
    using assms(2) by (simp add: lines bound_def)
  moreover have "isHorizontal (gridLines c' ! i) = isHorizontal (gridLines c ! i)"
    using assms(2) by (simp add: lines)
  moreover have "\<forall>j<length (gridLines c). j \<noteq> i \<longrightarrow> gridLines c' ! j = gridLines c ! j"
    by (simp add: lines)
  ultimately show ?thesis using res sent by blast
qed

theorem drag_changes_one_slot_witness:
  "activeLine ((canvas loadedApp)\<lparr>activeLine := Some 2\<rparr>) = Some 2 \<and>
   2 < length (gridLines ((canvas loadedApp)\<lparr>activeLine := Some 2\<rparr>)) \<and>
   (\<exists>c' n. handleMouseMove \<lparr>clientX = 500, clientY = 10\<rparr> naturalRect
        ((canvas loadedApp)\<lparr>activeLine := Some 2\<rparr>) = Inr (c', n) \<and>
      gridLines c' =
        [\<lparr>position = 100, isHorizontal = True\<rparr>, \<lparr>position = 200, isHorizontal = True\<rparr>,
         \<lparr>position = 300, isHorizontal = False\<rparr>, \<lparr>position = 200, isHorizontal = False\<rparr>])"
proof -
  let ?c = "(canvas loadedApp)\<lparr>activeLine := Some 2\<rparr>"
  have act: "activeLine ?c = Some 2" by simp
  have len: "2 < length (gridLines ?c)" by (simp add: loadedApp_eval defaultLines)
  from drag_changes_one_slot [OF act len, of "\<lparr>clientX = 500, clientY = 10\<rparr>" naturalRect]
  obtain c' n where res: "handleMouseMove \<lparr>clientX = 500, clientY = 10\<rparr> naturalRect ?c = Inr (c', n)"
    by blast
  then have "gridLines c' =
        [\<lparr>position = 100, isHorizontal = True\<rparr>, \<lparr>position = 200, isHorizontal = True\<rparr>,
         \<lparr>position = 300, isHorizontal = False\<rparr>, \<lparr>position = 200, isHorizontal = False\<rparr>]"
    by (auto simp: handleMouseMove_def loadedApp_eval defaultLines Let_def naturalRect_def
        rasterX_def rasterY_def constrain_def)
  with res act len show ?thesis by blast
qed

section \<open>Regeneration\<close>

lemma regenerationEffect_sized:
  assumes "0 < width (imageSize c)" and "0 < height (imageSize c)"
  shows "length (gridLines (fst (regenerationEffect r k c))) = (r - 1) + (k - 1) \<and>
         inBounds (imageSize c) (gridLines (fst (regenerationEffect r k c))) \<and>
         (\<forall>i. 1 \<le> i \<and> i < r \<longrightarrow>
            gridLines (fst (regenerationEffect r k c)) ! (i - 1) =
              \<lparr>position = real i / real r * real (height (imageSize c)),
               isHorizontal = True\<rparr>) \<and>
         (\<forall>j. 1 \<le> j \<and> j < k \<longrightarrow>
            gridLines (fst (regenerationEffect r k c)) ! ((r - 1) + (j - 1)) =
              \<lparr>position = real j / real k * real (width (imageSize c)),
               isHorizontal = False\<rparr>) \<and>
         gridLines (fst (regenerationEffect r k (c\<lparr>gridLines := prior\<rparr>))) =
           gridLines (fst (regenerationEffect r k c)) \<and>
         snd (regenerationEffect r k c) =
           Some (gridLines (fst (regenerationEffect r k c)),
                 width (imageSize c), height (imageSize c))"
proof -
  have eq: "gridLines (fst (regenerationEffect r k c)) = newGridLines r k (imageSize c)"
    using assms by (simp add: regenerationEffect_def Let_def)
  have "length (gridLines (fst (regenerationEffect r k c))) = (r - 1) + (k - 1)"
    unfolding eq by (rule newGridLines_length)
  moreover have "inBounds (imageSize c) (gridLines (fst (regenerationEffect r k c)))"
    unfolding eq by (rule inBounds_newGridLines)
  moreover have "gridLines (fst (regenerationEffect r k c)) ! (i - 1) =
      \<lparr>position = real i / real r * real (height (imageSize c)), isHorizontal = True\<rparr>"
    if "1 \<le> i" "i < r" for i
    unfolding eq using that by (rule newGridLines_horizontal)
  moreover have "gridLines (fst (regenerationEffect r k c)) ! ((r - 1) + (j - 1)) =
      \<lparr>position = real j / real k * real (width (imageSize c)), isHorizontal = False\<rparr>"
    if "1 \<le> j" "j < k" for j
    unfolding eq using that by (rule newGridLines_vertical)
  moreover have "gridLines (fst (regenerationEffect r k (c\<lparr>gridLines := prior\<rparr>))) =
      gridLines (fst (regenerationEffect r k c))"
    using assms by (simp add: regenerationEffect_def Let_def)
  moreover have "snd (regenerationEffect r k c) =
      Some (gridLines (fst (regenerationEffect r k c)), width (imageSize c), height (imageSize c))"
    using assms by (simp add: regenerationEffect_def Let_def)
  ultimately show ?thesis by blast
qed

lemma regenerationEffect_unsized:
  assumes "width (imageSize c) = 0 \<or> height (imageSize c) = 0"
  shows "regenerationEffect r k c = (c, None)"
  using assms by (auto simp: regenerationEffect_def)

lemma handleResetGrid_sized:
  assumes "0 < width (homeImageSize h)" and "0 < height (homeImageSize h)"
    and "imageUrl h = Some (u # us)" and "rows h = r" and "columns h = k"
  shows "length (homeGridLines (handleResetGrid h)) = (r - 1) + (k - 1) \<and>
         inBounds (homeImageSize h) (homeGridLines (handleResetGrid h)) \<and>
         (\<forall>i. 1 \<le> i \<and> i < r \<longrightarrow>
            homeGridLines (handleResetGrid h) ! (i - 1) =
              \<lparr>position = real i / real r * real (height (homeImageSize h)),
               isHorizontal = True\<rparr>) \<and>
         (\<forall>j. 1 \<le> j \<and> j < k \<longrightarrow>
            homeGridLines (handleResetGrid h) ! ((r - 1) + (j - 1)) =
              \<lparr>position = real j / real k * real (width (homeImageSize h)),
               isHorizontal = False\<rparr>) \<and>
         homeGridLines (handleResetGrid (h\<lparr>homeGridLines := prior\<rparr>)) =
           homeGridLines (handleResetGrid h)"
proof -
  have eq: "homeGridLines (handleResetGrid h) = newGridLines r k (homeImageSize h)"
    using assms by (simp add: handleResetGrid_def)
  have "length (homeGridLines (handleResetGrid h)) = (r - 1) + (k - 1)"
    unfolding eq by (rule newGridLines_length)
  moreover have "inBounds (homeImageSize h) (homeGridLines (handleResetGrid h))"
    unfolding eq by (rule inBounds_newGridLines)
  moreover have "homeGridLines (handleResetGrid h) ! (i - 1) =
      \<lparr>position = real i / real r * real (height (homeImageSize h)), isHorizontal = True\<rparr>"
    if "1 \<le> i" "i < r" for i
    unfolding eq using that by (rule newGridLines_horizontal)
  moreover have "homeGridLines (handleResetGrid h) ! ((r - 1) + (j - 1)) =
      \<lparr>position = real j / real k * real (width (homeImageSize h)), isHorizontal = False\<rparr>"
    if "1 \<le> j" "j < k" for j
    unfolding eq using that by (rule newGridLines_vertical)
  moreover have "homeGridLines (handleResetGrid (h\<lparr>homeGridLines := prior\<rparr>)) =
      homeGridLines (handleResetGrid h)"
    using assms by (simp add: handleResetGrid_def)
  ultimately show ?thesis by blast
qed

lemma handleResetGrid_unsized:
  assumes "width (homeImageSize h) = 0 \<or> height (homeImageSize h) = 0 \<or> imageUrl h = None
            \<or> imageUrl h = Some []"
  shows "handleResetGrid h = h"
  using assms by (auto simp: handleResetGrid_def)

text \<open>
  Claim C6, as stated, fails while the image size is still unknown: the initial page
  has three rows and three columns, the effect and the reset both return early, and the
  line list keeps its zero lines instead of four.
\<close>

theorem regeneration_without_size_counterexample:
  "2 \<le> rows (home (initialApp ''blob:image'')) \<and>
   2 \<le> columns (home (initialApp ''blob:image'')) \<and>
   length (gridLines (fst (regenerationEffect 3 3 (canvas (initialApp ''blob:image''))))) = 0 \<and>
   (3 - 1) + (3 - 1) = (4::nat) \<and>
   length (homeGridLines (handleResetGrid (home (initialApp ''blob:image'')))) = 0"
  by (simp add: initialApp_def regenerationEffect_def handleResetGrid_def)

text \<open>
  Claim C6, amended. For at least two rows and two columns and an image size that is
  positive in both dimensions (for the reset also a non-empty image URL), the
  regeneration effect and \<open>handleResetGrid\<close> yield \<open>(R - 1) + (C - 1)\<close> lines within
  their bounds, horizontal line \<open>i\<close> at \<open>i / R * H\<close> in slot \<open>i - 1\<close> and vertical
  line \<open>j\<close> at \<open>j / C * W\<close> in slot \<open>(R - 1) + (j - 1)\<close>, whatever the list held
  before; the effect reports the new list to the parent. With a zero width or height
  (or, for the reset, no image URL) nothing changes.
\<close>

theorem regeneration_evenly_spaced:
  assumes "2 \<le> r" and "2 \<le> k"
  shows "(0 < width (imageSize c) \<and> 0 < height (imageSize c) \<longrightarrow>
           length (gridLines (fst (regenerationEffect r k c))) = (r - 1) + (k - 1) \<and>
           inBounds (imageSize c) (gridLines (fst (regenerationEffect r k c))) \<and>
           (\<forall>i. 1 \<le> i \<and> i < r \<longrightarrow>
              gridLines (fst (regenerationEffect r k c)) ! (i - 1) =
                \<lparr>position = real i / real r * real (height (imageSize c)),
                 isHorizontal = True\<rparr>) \<and>
           (\<forall>j. 1 \<le> j \<and> j < k \<longrightarrow>
              gridLines (fst (regenerationEffect r k c)) ! ((r - 1) + (j - 1)) =
                \<lparr>position = real j / real k * real (width (imageSize c)),
                 isHorizontal = False\<rparr>) \<and>
           gridLines (fst (regenerationEffect r k (c\<lparr>gridLines := prior\<rparr>))) =
             gridLines (fst (regenerationEffect r k c)) \<and>
           snd (regenerationEffect r k c) =
             Some (gridLines (fst (regenerationEffect r k c)),
                   width (imageSize c), height (imageSize c))) \<and>
         (width (imageSize c) = 0 \<or> height (imageSize c) = 0 \<longrightarrow>
           regenerationEffect r k c = (c, None)) \<and>
         (0 < width (homeImageSize h) \<and> 0 < height (homeImageSize h) \<and>
          imageUrl h = Some (u # us) \<and> rows h = r \<and> columns h = k \<longrightarrow>
           length (homeGridLines (handleResetGrid h)) = (r - 1) + (k - 1) \<and>
           inBounds (homeImageSize h) (homeGridLines (handleResetGrid h)) \<and>
           (\<forall>i. 1 \<le> i \<and> i < r \<longrightarrow>
              homeGridLines (handleResetGrid h) ! (i - 1) =
                \<lparr>position = real i / real r * real (height (homeImageSize h)),
                 isHorizontal = True\<rparr>) \<and>
           (\<forall>j. 1 \<le> j \<and> j < k \<longrightarrow>
              homeGridLines (handleResetGrid h) ! ((r - 1) + (j - 1)) =
                \<lparr>position = real j / real k * real (width (homeImageSize h)),
                 isHorizontal = False\<rparr>) \<and>
           homeGridLines (handleResetGrid (h\<lparr>homeGridLines := prior\<rparr>)) =
             homeGridLines (handleResetGrid h)) \<and>
         (width (homeImageSize h) = 0 \<or> height (homeImageSize h) = 0 \<or> imageUrl h = None
            \<or> imageUrl h = Some [] \<longrightarrow> handleResetGrid h = h)"
  using regenerationEffect_sized [of c r k prior] regenerationEffect_unsized [of c r k]
    handleResetGrid_sized [of h u us r k prior] handleResetGrid_unsized [of h]
  by blast

theorem regeneration_evenly_spaced_witness:
  "(2::nat) \<le> 3 \<and> 0 < width (imageSize (canvas loadedApp)) \<and>
   0 < height (imageSize (canvas loadedApp)) \<and>
   length (gridLines (fst (regenerationEffect 3 3 (canvas loadedApp)))) = 4 \<and>
   gridLines (fst (regenerationEffect 3 3 (canvas loadedApp))) ! 1 =
     \<lparr>position = 200, isHorizontal = True\<rparr> \<and>
   0 < width (homeImageSize (home draggedApp)) \<and> 0 < height (homeImageSize (home draggedApp)) \<and>
   imageUrl (home draggedApp) = Some ''blob:image'' \<and>
   rows (home draggedApp) = 3 \<and> columns (home draggedApp) = 3 \<and>
   length (homeGridLines (handleResetGrid (home draggedApp))) = 4 \<and>
   homeGridLines (handleResetGrid (home draggedApp)) ! 2 =
     \<lparr>position = 100, isHorizontal = False\<rparr> \<and>
   width (imageSize (canvas (initialApp ''blob:image''))) = 0 \<and>
   regenerationEffect 3 3 (canvas (initialApp ''blob:image'')) =
     (canvas (initialApp ''blob:image''), None)"
proof -
  have r: "(2::nat) \<le> 3" by simp
  have sz: "0 < width (imageSize (canvas loadedApp)) \<and> 0 < height (imageSize (canvas loadedApp))"
    by (simp add: loadedApp_eval)
  note all = regeneration_evenly_spaced [where c = "canvas loadedApp" and prior = "[]"
      and h = "home draggedApp" and u = "CHR ''b''" and us = "''lob:image''", OF r r]
  from all sz have len: "length (gridLines (fst (regenerationEffect 3 3 (canvas loadedApp)))) =
      (3 - 1) + (3 - 1)"
    by blast
  from all sz have "\<forall>i. 1 \<le> i \<and> i < 3 \<longrightarrow>
      gridLines (fst (regenerationEffect 3 3 (canvas loadedApp))) ! (i - 1) =
        \<lparr>position = real i / real 3 * real (height (imageSize (canvas loadedApp))),
         isHorizontal = True\<rparr>"
    by blast
  from this [rule_format, of 2] have second:
    "gridLines (fst (regenerationEffect 3 3 (canvas loadedApp))) ! 1 =
      \<lparr>position = 200, isHorizontal = True\<rparr>"
    by (simp add: loadedApp_eval)
  have hsz: "0 < width (homeImageSize (home draggedApp)) \<and>
      0 < height (homeImageSize (home draggedApp)) \<and>
      imageUrl (home draggedApp) = Some (CHR ''b'' # ''lob:image'') \<and>
      rows (home draggedApp) = 3 \<and> columns (home draggedApp) = 3"
    by (simp add: draggedApp_eval)
  from all hsz have hlen: "length (homeGridLines (handleResetGrid (home draggedApp))) =
      (3 - 1) + (3 - 1)"
    by blast
  from all hsz have "\<forall>j. 1 \<le> j \<and> j < 3 \<longrightarrow>
      homeGridLines (handleResetGrid (home draggedApp)) ! ((3 - 1) + (j - 1)) =
        \<lparr>position = real j / real 3 * real (width (homeImageSize (home draggedApp))),
         isHorizontal = False\<rparr>"
    by blast
  from this [rule_format, of 1] have third:
    "homeGridLines (handleResetGrid (home draggedApp)) ! 2 =
      \<lparr>position = 100, isHorizontal = False\<rparr>"
    by (simp add: draggedApp_eval)
  have zero: "width (imageSize (canvas (initialApp ''blob:image''))) = 0"
    by (simp add: initialApp_def)
  from regeneration_evenly_spaced [where c = "canvas (initialApp ''blob:image'')", OF r r] zero
  have early: "regenerationEffect 3 3 (canvas (initialApp ''blob:image'')) =
      (canvas (initialApp ''blob:image''), None)"
    by blast
  from r sz len second hsz hlen third zero early show ?thesis by simp
qed

section \<open>Reset and the canvas\<close>

lemma clickResetGrid_canvas: "canvas (clickResetGrid a) = canvas a"
  by (simp add: clickResetGrid_def rerender_def handleResetGrid_def)

lemma clickResetGrid_home: "home (clickResetGrid a) = handleResetGrid (home a)"
  by (simp add: clickResetGrid_def rerender_def handleResetGrid_def)

text \<open>
  Claim C5. Pressing the reset button replaces the line list of the page only: the
  state of the canvas component, whose own list is drawn, hit-tested and dragged, is
  the same before and after, since none of the props it depends on changed. In the
  example session the two lists agree after the drag and differ after the reset: the
  page would cut at 100 where the canvas still shows the line at 150, and the client-side
  cut reads the list of the page.
\<close>

theorem reset_leaves_canvas_lines:
  "canvas (clickResetGrid a) = canvas a \<and>
   home (clickResetGrid a) = handleResetGrid (home a) \<and>
   gridLines (canvas draggedApp) = homeGridLines (home draggedApp) \<and>
   homeGridLines (home (clickResetGrid draggedApp)) =
     [\<lparr>position = 100, isHorizontal = True\<rparr>, \<lparr>position = 200, isHorizontal = True\<rparr>,
      \<lparr>position = 100, isHorizontal = False\<rparr>, \<lparr>position = 200, isHorizontal = False\<rparr>] \<and>
   gridLines (canvas (clickResetGrid draggedApp)) =
     [\<lparr>position = 150, isHorizontal = True\<rparr>, \<lparr>position = 200, isHorizontal = True\<rparr>,
      \<lparr>position = 100, isHorizontal = False\<rparr>, \<lparr>position = 200, isHorizontal = False\<rparr>] \<and>
   gridLines (canvas (clickResetGrid draggedApp)) \<noteq>
     homeGridLines (home (clickResetGrid draggedApp)) \<and>
   handleClientSideCut b (home (clickResetGrid draggedApp)) =
     Some (cutImageWithGridLines b (homeGridLines (home (clickResetGrid draggedApp))) 300 300)"
proof -
  have reset: "homeGridLines (handleResetGrid (home draggedApp)) =
      newGridLines 3 3 \<lparr>width = 300, height = 300\<rparr>"
    by (simp add: draggedApp_eval handleResetGrid_def)
  have cut: "handleClientSideCut b (handleResetGrid (home draggedApp)) =
      Some (cutImageWithGridLines b (homeGridLines (handleResetGrid (home draggedApp))) 300 300)"
    by (simp add: handleClientSideCut_def draggedApp_eval handleResetGrid_def defaultLines)
  from reset cut show ?thesis
    by (simp add: clickResetGrid_canvas clickResetGrid_home defaultLines)
      (simp add: draggedApp_eval)
qed

theorem reset_leaves_canvas_lines_witness:
  "canvas (clickResetGrid draggedApp) = canvas draggedApp \<and>
   position (gridLines (canvas (clickResetGrid draggedApp)) ! 0) = 150 \<and>
   position (homeGridLines (home (clickResetGrid draggedApp)) ! 0) = 100"
proof -
  note all = reset_leaves_canvas_lines [of draggedApp]
  from all have same: "canvas (clickResetGrid draggedApp) = canvas draggedApp"
    by blast
  from all have shown: "gridLines (canvas (clickResetGrid draggedApp)) =
     [\<lparr>position = 150, isHorizontal = True\<rparr>, \<lparr>position = 200, isHorizontal = True\<rparr>,
      \<lparr>position = 100, isHorizontal = False\<rparr>, \<lparr>position = 200, isHorizontal = False\<rparr>]"
    by blast
  from all have cut: "homeGridLines (home (clickResetGrid draggedApp)) =
     [\<lparr>position = 100, isHorizontal = True\<rparr>, \<lparr>position = 200, isHorizontal = True\<rparr>,
      \<lparr>position = 100, isHorizontal = False\<rparr>, \<lparr>position = 200, isHorizontal = False\<rparr>]"
    by blast
  show ?thesis
    unfolding shown cut using same by simp
qed

section \<open>Finding the line under the pointer\<close>

lemma handleMouseMove_hovered:
  assumes "handleMouseMove e rect c = Inr (c', n)"
  shows "hoveredLine c' = Some (nearestLine (rasterX e rect c) (rasterY e rect c) (gridLines c))"
  using assms
  by (auto simp: handleMouseMove_def Let_def split: option.splits if_splits)

lemma handleMouseDown_active:
  "activeLine (handleMouseDown e rect c) =
     (if nearestLine (rasterX e rect c) (rasterY e rect c) (gridLines c) = - 1
      then activeLine c
      else Some (nat (nearestLine (rasterX e rect c) (rasterY e rect c) (gridLines c))))"
  by (simp add: handleMouseDown_def Let_def)

text \<open>
  Claim C7, as stated, fails in its last part for pointer down: with a line already
  active and no line within the threshold, \<open>handleMouseDown\<close> stores nothing and the
  active line stays what it was instead of becoming none.
\<close>

theorem mouse_down_keeps_active_counterexample:
  "activeLine (canvas (mouseDown \<lparr>clientX = 50, clientY = 100\<rparr> naturalRect loadedApp)) = Some 0 \<and>
   nearestLine 50 50
     (gridLines (canvas (mouseDown \<lparr>clientX = 50, clientY = 100\<rparr> naturalRect loadedApp))) = - 1 \<and>
   activeLine (handleMouseDown \<lparr>clientX = 50, clientY = 50\<rparr> naturalRect
     (canvas (mouseDown \<lparr>clientX = 50, clientY = 100\<rparr> naturalRect loadedApp))) = Some 0"
  by (simp add: mouseDown_def handleMouseDown_def loadedApp_eval defaultLines Let_def
      naturalRect_def rasterX_def rasterY_def nearestLine_def distance_def)

text \<open>
  Claim C7, amended. With \<open>x\<close> and \<open>y\<close> the pointer mapped into raster pixels and
  \<open>d\<close> the perpendicular distance, the search returns either \<open>-1\<close>, and then every
  line is at distance 10 or more, or the index of a line closer than 10 whose distance
  is minimal and strictly smaller than that of every line before it (the lowest index
  among ties). A move stores the result as the hovered line, so \<open>-1\<close>, which indexes no
  line, when nothing is near; a down stores a found index as the active line and
  otherwise leaves the active line unchanged.
\<close>

theorem nearest_line_selection:
  fixes e rect c
  defines "x \<equiv> (clientX e - left rect) * (real (canvasWidth c) / rectWidth rect)"
    and "y \<equiv> (clientY e - top rect) * (real (canvasHeight c) / rectHeight rect)"
  defines "d \<equiv> (\<lambda>l. if isHorizontal l then \<bar>y - position l\<bar> else \<bar>x - position l\<bar>)"
  defines "r \<equiv> nearestLine x y (gridLines c)"
  shows "((r = - 1 \<and> (\<forall>j<length (gridLines c). 10 \<le> d (gridLines c ! j))) \<or>
          (\<exists>i<length (gridLines c). r = int i \<and> d (gridLines c ! i) < 10 \<and>
             (\<forall>j<i. d (gridLines c ! i) < d (gridLines c ! j)) \<and>
             (\<forall>j<length (gridLines c). d (gridLines c ! i) \<le> d (gridLines c ! j)))) \<and>
         (\<forall>c' n. handleMouseMove e rect c = Inr (c', n) \<longrightarrow> hoveredLine c' = Some r) \<and>
         activeLine (handleMouseDown e rect c) =
           (if r = - 1 then activeLine c else Some (nat r))"
proof -
  have xy: "x = rasterX e rect c" "y = rasterY e rect c"
    by (simp_all add: x_def y_def rasterX_def rasterY_def)
  have d: "d = distance x y"
    by (simp add: d_def distance_def fun_eq_iff)
  show ?thesis
    unfolding d r_def
    using nearestLine_spec [of x y "gridLines c"]
    by (auto simp: xy handleMouseDown_active dest: handleMouseMove_hovered)
qed

theorem nearest_line_selection_witness:
  "nearestLine 50 105 (gridLines (canvas loadedApp)) = 0 \<and>
   (\<exists>c' n. handleMouseMove \<lparr>clientX = 50, clientY = 105\<rparr> naturalRect (canvas loadedApp) = Inr (c', n) \<and>
      hoveredLine c' = Some 0) \<and>
   activeLine (handleMouseDown \<lparr>clientX = 50, clientY = 105\<rparr> naturalRect (canvas loadedApp)) = Some 0"
proof -
  have n: "nearestLine 50 105 (gridLines (canvas loadedApp)) = 0"
    by (simp add: loadedApp_eval defaultLines nearestLine_def distance_def)
  obtain c' n where res:
    "handleMouseMove \<lparr>clientX = 50, clientY = 105\<rparr> naturalRect (canvas loadedApp) = Inr (c', n)"
    using handleMouseMove_idle [of "canvas loadedApp" "\<lparr>clientX = 50, clientY = 105\<rparr>" naturalRect]
    by (auto simp: loadedApp_eval)
  from nearest_line_selection [of "\<lparr>clientX = 50, clientY = 105\<rparr>" naturalRect "canvas loadedApp"]
    res n
  show ?thesis
    by (simp add: naturalRect_def loadedApp_eval defaultLines)
qed

section \<open>The partition into cells\<close>

lemma length_concat_grid:
  "length (concat (map (\<lambda>i. map (f i) [0..<m]) [0..<n])) = n * m"
  by (induction n) simp_all

lemma concat_grid_nth:
  assumes "i < n" and "j < m"
  shows "concat (map (\<lambda>i. map (f i) [0..<m]) [0..<n]) ! (i * m + j) = f i j"
  using assms
proof (induction n)
  case 0
  then show ?case by simp
next
  case (Suc n)
  show ?case
  proof (cases "i < n")
    case True
    then have "i * m + j < n * m"
    proof -
      from True have "Suc i \<le> n" by simp
      then have "Suc i * m \<le> n * m" by (rule mult_le_mono1)
      with \<open>j < m\<close> show ?thesis by simp
    qed
    with Suc.IH [OF True \<open>j < m\<close>] show ?thesis
      by (simp add: nth_append length_concat_grid)
  next
    case False
    with Suc.prems have "i = n" by simp
    with \<open>j < m\<close> show ?thesis
      by (simp add: nth_append length_concat_grid)
  qed
qed

lemma in_concat_grid:
  assumes "c \<in> set (concat (map (\<lambda>i. map (f i) [0..<m]) [0..<n]))"
  shows "\<exists>i j. i < n \<and> j < m \<and> c = f i j"
  using assms by fastforce

text \<open>Consecutive entries of a sorted list cut the range between its ends into intervals.\<close>

lemma interval_exists:
  fixes bs :: "real list"
  assumes "bs \<noteq> []" and "hd bs \<le> p" and "p < last bs"
  shows "\<exists>k. k + 1 < length bs \<and> bs ! k \<le> p \<and> p < bs ! (k + 1)"
  using assms
proof (induction bs rule: list.induct)
  case Nil
  then show ?case by simp
next
  case (Cons b bs)
  show ?case
  proof (cases "bs = []")
    case True
    with Cons.prems show ?thesis by simp
  next
    case False
    show ?thesis
    proof (cases "p < hd bs")
      case True
      with Cons.prems False have "0 + 1 < length (b # bs) \<and> (b # bs) ! 0 \<le> p \<and> p < (b # bs) ! (0 + 1)"
        by (cases bs) simp_all
      then show ?thesis by blast
    next
      case nless: False
      with Cons.prems False have "hd bs \<le> p" "p < last bs" by simp_all
      from Cons.IH [OF False this] obtain k where
        "k + 1 < length bs" "bs ! k \<le> p" "p < bs ! (k + 1)" by blast
      then have "Suc k + 1 < length (b # bs) \<and> (b # bs) ! Suc k \<le> p \<and> p < (b # bs) ! (Suc k + 1)"
        by simp
      then show ?thesis by blast
    qed
  qed
qed

lemma interval_unique:
  fixes bs :: "real list"
  assumes "sorted bs"
    and "k + 1 < length bs" "bs ! k \<le> p" "p < bs ! (k + 1)"
    and "l + 1 < length bs" "bs ! l \<le> p" "p < bs ! (l + 1)"
  shows "k = l"
proof (rule ccontr)
  assume "k \<noteq> l"
  then consider "k < l" | "l < k" by linarith
  then show False
  proof cases
    case 1
    then have "bs ! (k + 1) \<le> bs ! l"
      using assms(1,5) by (intro sorted_nth_mono) simp_all
    with assms show False by linarith
  next
    case 2
    then have "bs ! (l + 1) \<le> bs ! k"
      using assms(1,2) by (intro sorted_nth_mono) simp_all
    with assms show False by linarith
  qed
qed

lemma sorted_between:
  fixes ps :: "real list"
  assumes "\<forall>p\<in>set ps. 0 \<le> p \<and> p \<le> real b"
  shows "sorted (0 # sort ps @ [real b])"
  using assms by (auto simp: sorted_append)

lemma positions_in_bounds:
  assumes "inBounds \<lparr>width = W, height = H\<rparr> lines"
  shows "\<forall>p\<in>set (map position (filter isHorizontal lines)). 0 \<le> p \<and> p \<le> real H"
    and "\<forall>p\<in>set (map position (filter (\<lambda>l. \<not> isHorizontal l) lines)). 0 \<le> p \<and> p \<le> real W"
  using assms unfolding inBounds_def list_all_iff bound_def by auto

lemma sorted_positions:
  assumes "inBounds \<lparr>width = W, height = H\<rparr> lines"
  shows "sorted (allHorizontalPositions lines H)" and "sorted (allVerticalPositions lines W)"
  unfolding allHorizontalPositions_def allVerticalPositions_def
  by (rule sorted_between, rule positions_in_bounds [OF assms])+

lemma length_positions:
  "length (allHorizontalPositions lines H) = length (filter isHorizontal lines) + 2"
  "length (allVerticalPositions lines W) = length (filter (\<lambda>l. \<not> isHorizontal l) lines) + 2"
  by (simp_all add: allHorizontalPositions_def allVerticalPositions_def)

lemma ends_of_positions:
  "allHorizontalPositions lines H ! 0 = 0"
  "allHorizontalPositions lines H ! Suc (length (filter isHorizontal lines)) = real H"
  "allVerticalPositions lines W ! 0 = 0"
  "allVerticalPositions lines W ! Suc (length (filter (\<lambda>l. \<not> isHorizontal l) lines)) = real W"
  by (simp_all add: allHorizontalPositions_def allVerticalPositions_def nth_append)

lemma cellsWithGridLines_grid:
  "cellsWithGridLines lines W H =
     concat (map (\<lambda>i. map (\<lambda>j.
        cellAt (allVerticalPositions lines W) (allHorizontalPositions lines H) i j)
        [0..<length (filter (\<lambda>l. \<not> isHorizontal l) lines) + 1])
        [0..<length (filter isHorizontal lines) + 1])"
  by (simp add: cellsWithGridLines_def Let_def length_positions)

lemma inside_cellAt:
  "inside (cellAt vs hs i j) px py \<longleftrightarrow>
     vs ! j \<le> px \<and> px < vs ! (j + 1) \<and> hs ! i \<le> py \<and> py < hs ! (i + 1)"
  by (simp add: inside_def cellAt_def)

lemma one_cell_per_point:
  fixes hs vs :: "real list"
  assumes sh: "sorted hs" and sv: "sorted vs"
    and lh: "length hs = h + 2" and lv: "length vs = v + 2"
    and py: "hs ! 0 \<le> py" "py < hs ! (h + 1)"
    and px: "vs ! 0 \<le> px" "px < vs ! (v + 1)"
  shows "\<exists>!n. n < (h + 1) * (v + 1) \<and>
           inside (cellAt vs hs (n div (v + 1)) (n mod (v + 1))) px py"
proof -
  have "hs \<noteq> []" "vs \<noteq> []" using lh lv by auto
  moreover have "hd hs = hs ! 0" "hd vs = vs ! 0"
    using \<open>hs \<noteq> []\<close> \<open>vs \<noteq> []\<close> by (simp_all add: hd_conv_nth)
  moreover have "last hs = hs ! (h + 1)" "last vs = vs ! (v + 1)"
    using \<open>hs \<noteq> []\<close> \<open>vs \<noteq> []\<close> lh lv by (simp_all add: last_conv_nth)
  ultimately obtain i j where i: "i + 1 < length hs" "hs ! i \<le> py" "py < hs ! (i + 1)"
    and j: "j + 1 < length vs" "vs ! j \<le> px" "px < vs ! (j + 1)"
    using interval_exists [of hs py] interval_exists [of vs px] py px by metis
  from i lh have ih: "i < h + 1" by simp
  from j lv have jv: "j < v + 1" by simp
  let ?n = "i * (v + 1) + j"
  have "?n div (v + 1) = i + j div (v + 1)"
    by (rule div_mult_self3) simp
  moreover have "j div (v + 1) = 0" using jv by simp
  ultimately have div: "?n div (v + 1) = i" by linarith
  have "?n mod (v + 1) = j mod (v + 1)"
    by (rule mod_mult_self3)
  moreover have "j mod (v + 1) = j" using jv by simp
  ultimately have md: "?n mod (v + 1) = j" by linarith
  have "Suc i * (v + 1) \<le> (h + 1) * (v + 1)"
    using ih by (intro mult_le_mono1) simp
  then have less: "?n < (h + 1) * (v + 1)" using jv by simp
  show ?thesis
  proof (rule ex1I [of _ ?n])
    show "?n < (h + 1) * (v + 1) \<and> inside (cellAt vs hs (?n div (v + 1)) (?n mod (v + 1))) px py"
      unfolding div md inside_cellAt using less i j by simp
  next
    fix n
    assume n: "n < (h + 1) * (v + 1) \<and>
      inside (cellAt vs hs (n div (v + 1)) (n mod (v + 1))) px py"
    let ?i = "n div (v + 1)" and ?j = "n mod (v + 1)"
    from n have "?i < h + 1"
      by (simp add: less_mult_imp_div_less)
    then have li: "?i + 1 < length hs" using lh by simp
    have lj: "?j + 1 < length vs" using lv by simp
    from n have ins: "vs ! ?j \<le> px" "px < vs ! (?j + 1)" "hs ! ?i \<le> py" "py < hs ! (?i + 1)"
      unfolding inside_cellAt by simp_all
    have "?i = i"
      using interval_unique [OF sh li ins(3,4) i] .
    moreover have "?j = j"
      using interval_unique [OF sv lj ins(1,2) j] .
    ultimately show "n = ?n"
      using div_mult_mod_eq [of n "v + 1"] by simp
  qed
qed

lemma cell_of_grid:
  assumes "c \<in> set (cellsWithGridLines lines W H)"
  shows "\<exists>i j. i \<le> length (filter isHorizontal lines) \<and>
           j \<le> length (filter (\<lambda>l. \<not> isHorizontal l) lines) \<and>
           c = cellAt (allVerticalPositions lines W) (allHorizontalPositions lines H) i j"
proof -
  from in_concat_grid [OF assms [unfolded cellsWithGridLines_grid]]
  obtain i j where "i < length (filter isHorizontal lines) + 1"
    "j < length (filter (\<lambda>l. \<not> isHorizontal l) lines) + 1"
    "c = cellAt (allVerticalPositions lines W) (allHorizontalPositions lines H) i j"
    by blast
  then show ?thesis by (intro exI [of _ i] exI [of _ j]) simp
qed

lemma cellsWithGridLines_nth:
  assumes "i \<le> length (filter isHorizontal lines)"
    and "j \<le> length (filter (\<lambda>l. \<not> isHorizontal l) lines)"
  shows "cellsWithGridLines lines W H ! (i * (length (filter (\<lambda>l. \<not> isHorizontal l) lines) + 1) + j) =
           cellAt (allVerticalPositions lines W) (allHorizontalPositions lines H) i j"
  unfolding cellsWithGridLines_grid
  by (rule concat_grid_nth) (use assms in simp_all)

lemma cellsWithGridLines_length:
  "length (cellsWithGridLines lines W H) =
     (length (filter isHorizontal lines) + 1) * (length (filter (\<lambda>l. \<not> isHorizontal l) lines) + 1)"
  unfolding cellsWithGridLines_grid by (rule length_concat_grid)

lemma cellsWithGridLines_nth_divmod:
  assumes "n < length (cellsWithGridLines lines W H)"
  shows "cellsWithGridLines lines W H ! n =
           cellAt (allVerticalPositions lines W) (allHorizontalPositions lines H)
             (n div (length (filter (\<lambda>l. \<not> isHorizontal l) lines) + 1))
             (n mod (length (filter (\<lambda>l. \<not> isHorizontal l) lines) + 1))"
proof -
  let ?v = "length (filter (\<lambda>l. \<not> isHorizontal l) lines)"
  let ?h = "length (filter isHorizontal lines)"
  from assms have "n div (?v + 1) < ?h + 1"
    by (simp add: cellsWithGridLines_length less_mult_imp_div_less)
  then have i: "n div (?v + 1) \<le> ?h" by simp
  have j: "n mod (?v + 1) \<le> ?v" by (simp add: less_Suc_eq_le [symmetric])
  have "n div (?v + 1) * (?v + 1) + n mod (?v + 1) = n"
    by (rule div_mult_mod_eq)
  with cellsWithGridLines_nth [OF i j, of W H] show ?thesis by (simp only:)
qed

lemma cell_within_image:
  assumes inb: "inBounds \<lparr>width = W, height = H\<rparr> lines"
    and c: "c \<in> set (cellsWithGridLines lines W H)"
  shows "0 \<le> cellWidth c \<and> 0 \<le> cellHeight c \<and>
         0 \<le> startX c \<and> startX c + cellWidth c \<le> real W \<and>
         0 \<le> startY c \<and> startY c + cellHeight c \<le> real H"
proof -
  let ?hs = "allHorizontalPositions lines H" and ?vs = "allVerticalPositions lines W"
  let ?h = "length (filter isHorizontal lines)"
  let ?v = "length (filter (\<lambda>l. \<not> isHorizontal l) lines)"
  from cell_of_grid [OF c] obtain i j where i: "i \<le> ?h" and j: "j \<le> ?v"
    and eq: "c = cellAt ?vs ?hs i j" by blast
  note sh = sorted_positions(1) [OF inb] and sv = sorted_positions(2) [OF inb]
  have "?hs ! 0 \<le> ?hs ! i" "?hs ! i \<le> ?hs ! (i + 1)" "?hs ! (i + 1) \<le> ?hs ! (?h + 1)"
    using i by (auto intro!: sorted_nth_mono [OF sh] simp: length_positions)
  moreover have "?vs ! 0 \<le> ?vs ! j" "?vs ! j \<le> ?vs ! (j + 1)" "?vs ! (j + 1) \<le> ?vs ! (?v + 1)"
    using j by (auto intro!: sorted_nth_mono [OF sv] simp: length_positions)
  ultimately show ?thesis
    unfolding eq by (simp add: cellAt_def ends_of_positions)
qed

lemma defaultLines_inBounds:
  "inBounds \<lparr>width = 300, height = 300\<rparr> (newGridLines 3 3 \<lparr>width = 300, height = 300\<rparr>)"
  by (rule inBounds_newGridLines)

lemma partition_cells_core:
  fixes lines :: "GridLine list" and W H :: nat
  defines "h \<equiv> length (filter isHorizontal lines)"
    and "v \<equiv> length (filter (\<lambda>l. \<not> isHorizontal l) lines)"
    and "hs \<equiv> allHorizontalPositions lines H"
    and "vs \<equiv> allVerticalPositions lines W"
    and "cells \<equiv> cellsWithGridLines lines W H"
  assumes inb: "inBounds \<lparr>width = W, height = H\<rparr> lines"
  shows "length cells = (h + 1) * (v + 1) \<and>
         (\<forall>i j. i \<le> h \<and> j \<le> v \<longrightarrow>
            cells ! (i * (v + 1) + j) =
              \<lparr>startX = vs ! j, startY = hs ! i,
               cellWidth = vs ! (j + 1) - vs ! j, cellHeight = hs ! (i + 1) - hs ! i\<rparr>) \<and>
         length hs = h + 2 \<and> sorted hs \<and> hs ! 0 = 0 \<and> hs ! (h + 1) = real H \<and>
         length vs = v + 2 \<and> sorted vs \<and> vs ! 0 = 0 \<and> vs ! (v + 1) = real W \<and>
         (\<forall>c\<in>set cells.
            0 \<le> cellWidth c \<and> 0 \<le> cellHeight c \<and>
            0 \<le> startX c \<and> startX c + cellWidth c \<le> real W \<and>
            0 \<le> startY c \<and> startY c + cellHeight c \<le> real H) \<and>
         (\<forall>px py. 0 \<le> px \<and> px < real W \<and> 0 \<le> py \<and> py < real H \<longrightarrow>
            (\<exists>!n. n < length cells \<and> inside (cells ! n) px py)) \<and>
         (h = 0 \<longrightarrow> (\<forall>c\<in>set cells. startY c = 0 \<and> cellHeight c = real H)) \<and>
         (v = 0 \<longrightarrow> (\<forall>c\<in>set cells. startX c = 0 \<and> cellWidth c = real W))"
proof -
  have len: "length cells = (h + 1) * (v + 1)"
    unfolding cells_def h_def v_def by (rule cellsWithGridLines_length)
  have nth: "cells ! (i * (v + 1) + j) =
      \<lparr>startX = vs ! j, startY = hs ! i,
       cellWidth = vs ! (j + 1) - vs ! j, cellHeight = hs ! (i + 1) - hs ! i\<rparr>"
    if "i \<le> h" "j \<le> v" for i j
    using cellsWithGridLines_nth [of i lines j W H] that
    unfolding cells_def h_def v_def hs_def vs_def cellAt_def by simp
  have ends: "length hs = h + 2" "sorted hs" "hs ! 0 = 0" "hs ! (h + 1) = real H"
    "length vs = v + 2" "sorted vs" "vs ! 0 = 0" "vs ! (v + 1) = real W"
    unfolding hs_def vs_def h_def v_def
    by (simp_all add: length_positions ends_of_positions sorted_positions [OF inb])
  have within: "\<forall>c\<in>set cells.
      0 \<le> cellWidth c \<and> 0 \<le> cellHeight c \<and>
      0 \<le> startX c \<and> startX c + cellWidth c \<le> real W \<and>
      0 \<le> startY c \<and> startY c + cellHeight c \<le> real H"
    unfolding cells_def using cell_within_image [OF inb] by blast
  have tiles: "\<exists>!n. n < length cells \<and> inside (cells ! n) px py"
    if "0 \<le> px" "px < real W" "0 \<le> py" "py < real H" for px py
  proof -
    from one_cell_per_point [of hs vs h v py px] ends that
    have one: "\<exists>!n. n < (h + 1) * (v + 1) \<and>
        inside (cellAt vs hs (n div (v + 1)) (n mod (v + 1))) px py"
      by simp
    have "cells ! n = cellAt vs hs (n div (v + 1)) (n mod (v + 1))" if "n < length cells" for n
      using cellsWithGridLines_nth_divmod [of n lines W H] that
      unfolding cells_def hs_def vs_def v_def by simp
    with one len show ?thesis by metis
  qed
  have single_row: "\<forall>c\<in>set cells. startY c = 0 \<and> cellHeight c = real H" if "h = 0"
  proof
    fix c assume "c \<in> set cells"
    from cell_of_grid [OF this [unfolded cells_def]] that
    obtain j where "c = cellAt vs hs 0 j"
      unfolding h_def hs_def vs_def by auto
    with ends that show "startY c = 0 \<and> cellHeight c = real H"
      by (simp add: cellAt_def)
  qed
  have single_column: "\<forall>c\<in>set cells. startX c = 0 \<and> cellWidth c = real W" if "v = 0"
  proof
    fix c assume "c \<in> set cells"
    from cell_of_grid [OF this [unfolded cells_def]] that
    obtain i where "c = cellAt vs hs i 0"
      unfolding v_def hs_def vs_def by auto
    with ends that show "startX c = 0 \<and> cellWidth c = real W"
      by (simp add: cellAt_def)
  qed
  from len nth ends within tiles single_row single_column show ?thesis
    by (intro conjI allI impI) blast+
qed


lemma toUnsignedLong_exact: "0 \<le> v \<Longrightarrow> v < 2 ^ 32 \<Longrightarrow> int (toUnsignedLong v) = \<lfloor>v\<rfloor>"
proof -
  assume v: "0 \<le> v" "v < 2 ^ 32"
  then have "0 \<le> \<lfloor>v\<rfloor>" "\<lfloor>v\<rfloor> < 2 ^ 32"
    by (simp_all add: floor_less_iff)
  then show ?thesis using v by (simp add: toUnsignedLong_def)
qed

lemma cutImageWithGridLines_urls:
  assumes "imageLoads b" and "hasContext b"
  shows "cutImageWithGridLines b lines W H =
           Inr (map (\<lambda>cell. toDataURL b
                   (toUnsignedLong (cellWidth cell), toUnsignedLong (cellHeight cell)) cell)
                 (cellsWithGridLines lines W H))"
  using assms by (simp add: cutImageWithGridLines_def)

lemma toUnsignedLong_200: "toUnsignedLong 200 = 200" "toUnsignedLong 150 = 150"
  by (simp_all add: toUnsignedLong_def)

text \<open>
  Claim C3. For a line list in any order, duplicates included, whose positions lie
  within their bounds, with \<open>h\<close> horizontal and \<open>v\<close> vertical lines: the horizontal
  boundaries \<open>hs\<close> are 0, the positions of the horizontal lines in ascending order
  (the same positions with the same multiplicities), and \<open>H\<close>; the vertical boundaries
  \<open>vs\<close> likewise with \<open>W\<close>. There are \<open>(h + 1) * (v + 1)\<close> rectangles, and the one
  at index \<open>i * (v + 1) + j\<close> spans the \<open>i\<close>-th interval of \<open>hs\<close> and the \<open>j\<close>-th
  interval of \<open>vs\<close> (row-major order); every rectangle has non-negative width and
  height and lies within the image; every point of the image lies in exactly one
  rectangle, read as half-open (this holds with duplicate positions too, whose
  rectangles are empty); an axis without lines gives the single interval from 0 to the
  bound. When the image loads and a context is had, \<open>cutImageWithGridLines\<close> returns
  one data URL per rectangle in this order, each drawn from its rectangle on a canvas
  resized to it; otherwise it fails with the matching error.
\<close>

theorem partition_into_cells:
  fixes lines :: "GridLine list" and W H :: nat and b :: "'u Browser"
  defines "h \<equiv> length (filter isHorizontal lines)"
    and "v \<equiv> length (filter (\<lambda>l. \<not> isHorizontal l) lines)"
    and "hs \<equiv> 0 # sort (map position (filter isHorizontal lines)) @ [real H]"
    and "vs \<equiv> 0 # sort (map position (filter (\<lambda>l. \<not> isHorizontal l) lines)) @ [real W]"
    and "cells \<equiv> cellsWithGridLines lines W H"
  assumes inb: "inBounds \<lparr>width = W, height = H\<rparr> lines"
  shows "(length cells = (h + 1) * (v + 1) \<and>
         (\<forall>i j. i \<le> h \<and> j \<le> v \<longrightarrow>
            cells ! (i * (v + 1) + j) =
              \<lparr>startX = vs ! j, startY = hs ! i,
               cellWidth = vs ! (j + 1) - vs ! j, cellHeight = hs ! (i + 1) - hs ! i\<rparr>) \<and>
         length hs = h + 2 \<and> sorted hs \<and> hs ! 0 = 0 \<and> hs ! (h + 1) = real H \<and>
         length vs = v + 2 \<and> sorted vs \<and> vs ! 0 = 0 \<and> vs ! (v + 1) = real W \<and>
         (\<forall>c\<in>set cells.
            0 \<le> cellWidth c \<and> 0 \<le> cellHeight c \<and>
            0 \<le> startX c \<and> startX c + cellWidth c \<le> real W \<and>
            0 \<le> startY c \<and> startY c + cellHeight c \<le> real H) \<and>
         (\<forall>px py. 0 \<le> px \<and> px < real W \<and> 0 \<le> py \<and> py < real H \<longrightarrow>
            (\<exists>!n. n < length cells \<and> inside (cells ! n) px py)) \<and>
         (h = 0 \<longrightarrow> (\<forall>c\<in>set cells. startY c = 0 \<and> cellHeight c = real H)) \<and>
         (v = 0 \<longrightarrow> (\<forall>c\<in>set cells. startX c = 0 \<and> cellWidth c = real W))) \<and>
        mset (butlast (tl hs)) = mset (map position (filter isHorizontal lines)) \<and>
        mset (butlast (tl vs)) = mset (map position (filter (\<lambda>l. \<not> isHorizontal l) lines)) \<and>
        (imageLoads b \<and> hasContext b \<longrightarrow>
           (\<exists>urls. cutImageWithGridLines b lines W H = Inr urls \<and>
              length urls = (h + 1) * (v + 1) \<and>
              (\<forall>i j. i \<le> h \<and> j \<le> v \<longrightarrow>
                 urls ! (i * (v + 1) + j) =
                   toDataURL b
                     (toUnsignedLong (vs ! (j + 1) - vs ! j),
                      toUnsignedLong (hs ! (i + 1) - hs ! i))
                     \<lparr>startX = vs ! j, startY = hs ! i,
                      cellWidth = vs ! (j + 1) - vs ! j,
                      cellHeight = hs ! (i + 1) - hs ! i\<rparr>))) \<and>
        (\<not> imageLoads b \<longrightarrow> cutImageWithGridLines b lines W H = Inl ImageLoadFailed) \<and>
        (imageLoads b \<and> \<not> hasContext b \<longrightarrow>
           cutImageWithGridLines b lines W H = Inl NoCanvasContext)"
    (is "?grid \<and> ?mh \<and> ?mv \<and> ?cut \<and> ?e1 \<and> ?e2")
proof -
  have grid: ?grid
    using partition_cells_core [OF inb, unfolded allHorizontalPositions_def allVerticalPositions_def]
    unfolding h_def v_def hs_def vs_def cells_def .
  have mh: ?mh and mv: ?mv
    by (simp_all add: hs_def vs_def butlast_append)
  have cut: ?cut
  proof
    assume "imageLoads b \<and> hasContext b"
    then have eq: "cutImageWithGridLines b lines W H =
        Inr (map (\<lambda>cell. toDataURL b
               (toUnsignedLong (cellWidth cell), toUnsignedLong (cellHeight cell)) cell) cells)"
      unfolding cells_def by (intro cutImageWithGridLines_urls) simp_all
    let ?urls = "map (\<lambda>cell. toDataURL b
               (toUnsignedLong (cellWidth cell), toUnsignedLong (cellHeight cell)) cell) cells"
    from grid have len: "length cells = (h + 1) * (v + 1)" by blast
    have "?urls ! (i * (v + 1) + j) =
        toDataURL b
          (toUnsignedLong (vs ! (j + 1) - vs ! j), toUnsignedLong (hs ! (i + 1) - hs ! i))
          \<lparr>startX = vs ! j, startY = hs ! i,
           cellWidth = vs ! (j + 1) - vs ! j, cellHeight = hs ! (i + 1) - hs ! i\<rparr>"
      if ij: "i \<le> h \<and> j \<le> v" for i j
    proof -
      from grid ij have c: "cells ! (i * (v + 1) + j) =
          \<lparr>startX = vs ! j, startY = hs ! i,
           cellWidth = vs ! (j + 1) - vs ! j, cellHeight = hs ! (i + 1) - hs ! i\<rparr>"
        by blast
      from ij have "Suc i * (v + 1) \<le> (h + 1) * (v + 1)"
        by (intro mult_le_mono1) simp
      with ij have "i * (v + 1) + j < length cells"
        unfolding len by simp
      then have "?urls ! (i * (v + 1) + j) =
          toDataURL b (toUnsignedLong (cellWidth (cells ! (i * (v + 1) + j))),
                       toUnsignedLong (cellHeight (cells ! (i * (v + 1) + j))))
            (cells ! (i * (v + 1) + j))"
        by (rule nth_map)
      then show ?thesis unfolding c by simp
    qed
    then show "\<exists>urls. cutImageWithGridLines b lines W H = Inr urls \<and>
              length urls = (h + 1) * (v + 1) \<and>
              (\<forall>i j. i \<le> h \<and> j \<le> v \<longrightarrow>
                 urls ! (i * (v + 1) + j) =
                   toDataURL b
                     (toUnsignedLong (vs ! (j + 1) - vs ! j),
                      toUnsignedLong (hs ! (i + 1) - hs ! i))
                     \<lparr>startX = vs ! j, startY = hs ! i,
                      cellWidth = vs ! (j + 1) - vs ! j,
                      cellHeight = hs ! (i + 1) - hs ! i\<rparr>)"
      using eq len by (intro exI [of _ ?urls]) simp
  qed
  have e1: ?e1 and e2: ?e2
    by (auto simp: cutImageWithGridLines_def)
  show ?thesis
    by (rule conjI [OF grid conjI [OF mh conjI [OF mv conjI [OF cut conjI [OF e1 e2]]]]])
qed

theorem partition_into_cells_witness:
  "inBounds \<lparr>width = 300, height = 300\<rparr> crossedLines \<and>
   length (cellsWithGridLines crossedLines 300 300) = 6 \<and>
   cellsWithGridLines crossedLines 300 300 ! 3 =
     \<lparr>startX = 100, startY = 50, cellWidth = 200, cellHeight = 150\<rparr> \<and>
   (\<exists>urls. cutImageWithGridLines pairingBrowser crossedLines 300 300 = Inr urls \<and>
      length urls = 6 \<and>
      urls ! 3 = ((200, 150), \<lparr>startX = 100, startY = 50, cellWidth = 200, cellHeight = 150\<rparr>)) \<and>
   cutImageWithGridLines (pairingBrowser\<lparr>imageLoads := False\<rparr>) crossedLines 300 300 =
     Inl ImageLoadFailed \<and>
   cutImageWithGridLines (pairingBrowser\<lparr>hasContext := False\<rparr>) crossedLines 300 300 =
     Inl NoCanvasContext"
proof -
  have inb: "inBounds \<lparr>width = 300, height = 300\<rparr> crossedLines"
    by (simp add: inBounds_def crossedLines_def bound_def)
  have hv: "length (filter isHorizontal crossedLines) = 2"
    "length (filter (\<lambda>l. \<not> isHorizontal l) crossedLines) = 1"
    by (simp_all add: crossedLines_def)
  have hs: "0 # sort (map position (filter isHorizontal crossedLines)) @ [real 300] =
      [0, 50, 200, 300]"
    by (simp add: crossedLines_def)
  have vs: "0 # sort (map position (filter (\<lambda>l. \<not> isHorizontal l) crossedLines)) @ [real 300] =
      [0, 100, 300]"
    by (simp add: crossedLines_def)
  note all = partition_into_cells [where lines = crossedLines and W = 300 and H = 300, OF inb,
      unfolded hv hs vs]
  from all [where b = pairingBrowser]
  have len: "length (cellsWithGridLines crossedLines 300 300) = (2 + 1) * (1 + 1)"
    by blast
  from all [where b = pairingBrowser]
  have "\<forall>i j. i \<le> 2 \<and> j \<le> 1 \<longrightarrow>
      cellsWithGridLines crossedLines 300 300 ! (i * (1 + 1) + j) =
        \<lparr>startX = [0, 100, 300] ! j, startY = [0, 50, 200, 300] ! i,
         cellWidth = [0, 100, 300] ! (j + 1) - [0, 100, 300] ! j,
         cellHeight = [0, 50, 200, 300] ! (i + 1) - [0, 50, 200, 300] ! i\<rparr>"
    by blast
  from this [rule_format, of 1 1]
  have "cellsWithGridLines crossedLines 300 300 ! Suc (Suc (Suc 0)) =
      \<lparr>startX = 100, startY = 50, cellWidth = 200, cellHeight = 150\<rparr>"
    by simp
  then have fourth: "cellsWithGridLines crossedLines 300 300 ! 3 =
      \<lparr>startX = 100, startY = 50, cellWidth = 200, cellHeight = 150\<rparr>"
    by (simp add: numeral_3_eq_3)
  have ok: "imageLoads pairingBrowser \<and> hasContext pairingBrowser"
    by (simp add: pairingBrowser_def)
  from all [where b = pairingBrowser] ok obtain urls where
    res: "cutImageWithGridLines pairingBrowser crossedLines 300 300 = Inr urls"
    and n: "length urls = (2 + 1) * (1 + 1)"
    and u: "\<forall>i j. i \<le> 2 \<and> j \<le> 1 \<longrightarrow>
      urls ! (i * (1 + 1) + j) =
        toDataURL pairingBrowser
          (toUnsignedLong ([0, 100, 300] ! (j + 1) - [0, 100, 300] ! j),
           toUnsignedLong ([0, 50, 200, 300] ! (i + 1) - [0, 50, 200, 300] ! i))
          \<lparr>startX = [0, 100, 300] ! j, startY = [0, 50, 200, 300] ! i,
           cellWidth = [0, 100, 300] ! (j + 1) - [0, 100, 300] ! j,
           cellHeight = [0, 50, 200, 300] ! (i + 1) - [0, 50, 200, 300] ! i\<rparr>"
    by blast
  from u [rule_format, of 1 1]
  have "urls ! Suc (Suc (Suc 0)) =
      ((200, 150), \<lparr>startX = 100, startY = 50, cellWidth = 200, cellHeight = 150\<rparr>)"
    by (simp add: pairingBrowser_def toUnsignedLong_200)
  then have u3: "urls ! 3 =
      ((200, 150), \<lparr>startX = 100, startY = 50, cellWidth = 200, cellHeight = 150\<rparr>)"
    by (simp add: numeral_3_eq_3)
  have noload: "\<not> imageLoads (pairingBrowser\<lparr>imageLoads := False\<rparr>)" by simp
  from all [where b = "pairingBrowser\<lparr>imageLoads := False\<rparr>"] noload
  have e1: "cutImageWithGridLines (pairingBrowser\<lparr>imageLoads := False\<rparr>) crossedLines 300 300 =
      Inl ImageLoadFailed"
    by blast
  have noctx: "imageLoads (pairingBrowser\<lparr>hasContext := False\<rparr>) \<and>
      \<not> hasContext (pairingBrowser\<lparr>hasContext := False\<rparr>)"
    by (simp add: pairingBrowser_def)
  from all [where b = "pairingBrowser\<lparr>hasContext := False\<rparr>"] noctx
  have e2: "cutImageWithGridLines (pairingBrowser\<lparr>hasContext := False\<rparr>) crossedLines 300 300 =
      Inl NoCanvasContext"
    by blast
  from inb len fourth res n u3 e1 e2 show ?thesis by simp
qed

section \<open>The uniform grid on the client and on the server\<close>

lemma floored_quotient: "\<lfloor>real w / real_of_int k\<rfloor> = int w div k"
proof -
  have "real w / real_of_int k = real_of_int (int w) / real_of_int k" by simp
  then show ?thesis by (simp only: floor_divide_of_int_eq)
qed

lemma serverRegions_grid:
  "serverRegions w h r k =
     concat (map (\<lambda>row. map (\<lambda>col.
        (imageName (nat (int row * k + int col + 1)),
         \<lparr>regionLeft = int col * (int w div k), regionTop = int row * (int h div r),
          regionWidth = int w div k, regionHeight = int h div r\<rparr>))
        [0..<nat k]) [0..<nat r])"
  unfolding serverRegions_def Let_def floored_quotient ..

lemma serverRegions_length: "length (serverRegions w h r k) = nat r * nat k"
  unfolding serverRegions_grid by (rule length_concat_grid)

lemma serverRegions_nth:
  assumes "row < nat r" and "col < nat k"
  shows "serverRegions w h r k ! (row * nat k + col) =
           (imageName (nat (int row * k + int col + 1)),
            \<lparr>regionLeft = int col * (int w div k), regionTop = int row * (int h div r),
             regionWidth = int w div k, regionHeight = int h div r\<rparr>)"
  unfolding serverRegions_grid by (rule concat_grid_nth) (use assms in simp_all)

lemma serverRegions_member:
  assumes "e \<in> set (serverRegions w h r k)"
  shows "\<exists>row col. row < nat r \<and> col < nat k \<and>
           e = (imageName (nat (int row * k + int col + 1)),
                \<lparr>regionLeft = int col * (int w div k), regionTop = int row * (int h div r),
                 regionWidth = int w div k, regionHeight = int h div r\<rparr>)"
  using in_concat_grid [OF assms [unfolded serverRegions_grid]] by blast

lemma cellsIntoGrid_grid:
  "cellsIntoGrid w h r k =
     concat (map (\<lambda>row. map (\<lambda>col.
        \<lparr>startX = real col * (real w / real k), startY = real row * (real h / real r),
         cellWidth = real w / real k, cellHeight = real h / real r\<rparr>)
        [0..<k]) [0..<r])"
  unfolding cellsIntoGrid_def Let_def ..

lemma cellsIntoGrid_length: "length (cellsIntoGrid w h r k) = r * k"
  unfolding cellsIntoGrid_grid by (rule length_concat_grid)

lemma cellsIntoGrid_nth:
  assumes "row < r" and "col < k"
  shows "cellsIntoGrid w h r k ! (row * k + col) =
           \<lparr>startX = real col * (real w / real k), startY = real row * (real h / real r),
            cellWidth = real w / real k, cellHeight = real h / real r\<rparr>"
  unfolding cellsIntoGrid_grid using assms by (rule concat_grid_nth)

lemma exact_quotient:
  fixes w k :: nat
  assumes "k dvd w"
  shows "real_of_int (int w div int k) = real w / real k"
proof -
  have "int w div int k = int (w div k)" by (simp add: zdiv_int)
  then show ?thesis using assms by (simp add: real_of_nat_div)
qed

lemma regions_are_cells_when_exact:
  fixes w h r k :: nat
  assumes "k dvd w" and "r dvd h"
  shows "map (cellOfRegion \<circ> snd) (serverRegions w h (int r) (int k)) = cellsIntoGrid w h r k"
  unfolding serverRegions_grid cellsIntoGrid_grid
  by (simp add: map_concat comp_def cellOfRegion_def exact_quotient [OF assms(1)]
      exact_quotient [OF assms(2)])

lemma upt_0_3: "[0..<3] = [0, 1, 2]"
  by (simp add: upt_conv_Cons)

lemma regions_10_10_3_3:
  "map snd (serverRegions 10 10 3 3) =
     [\<lparr>regionLeft = 0, regionTop = 0, regionWidth = 3, regionHeight = 3\<rparr>,
      \<lparr>regionLeft = 3, regionTop = 0, regionWidth = 3, regionHeight = 3\<rparr>,
      \<lparr>regionLeft = 6, regionTop = 0, regionWidth = 3, regionHeight = 3\<rparr>,
      \<lparr>regionLeft = 0, regionTop = 3, regionWidth = 3, regionHeight = 3\<rparr>,
      \<lparr>regionLeft = 3, regionTop = 3, regionWidth = 3, regionHeight = 3\<rparr>,
      \<lparr>regionLeft = 6, regionTop = 3, regionWidth = 3, regionHeight = 3\<rparr>,
      \<lparr>regionLeft = 0, regionTop = 6, regionWidth = 3, regionHeight = 3\<rparr>,
      \<lparr>regionLeft = 3, regionTop = 6, regionWidth = 3, regionHeight = 3\<rparr>,
      \<lparr>regionLeft = 6, regionTop = 6, regionWidth = 3, regionHeight = 3\<rparr>]"
  by (simp add: serverRegions_grid upt_0_3)

lemma cells_10_10_3_3:
  "cellsIntoGrid 10 10 3 3 =
     [\<lparr>startX = 0, startY = 0, cellWidth = 10 / 3, cellHeight = 10 / 3\<rparr>,
      \<lparr>startX = 10 / 3, startY = 0, cellWidth = 10 / 3, cellHeight = 10 / 3\<rparr>,
      \<lparr>startX = 20 / 3, startY = 0, cellWidth = 10 / 3, cellHeight = 10 / 3\<rparr>,
      \<lparr>startX = 0, startY = 10 / 3, cellWidth = 10 / 3, cellHeight = 10 / 3\<rparr>,
      \<lparr>startX = 10 / 3, startY = 10 / 3, cellWidth = 10 / 3, cellHeight = 10 / 3\<rparr>,
      \<lparr>startX = 20 / 3, startY = 10 / 3, cellWidth = 10 / 3, cellHeight = 10 / 3\<rparr>,
      \<lparr>startX = 0, startY = 20 / 3, cellWidth = 10 / 3, cellHeight = 10 / 3\<rparr>,
      \<lparr>startX = 10 / 3, startY = 20 / 3, cellWidth = 10 / 3, cellHeight = 10 / 3\<rparr>,
      \<lparr>startX = 20 / 3, startY = 20 / 3, cellWidth = 10 / 3, cellHeight = 10 / 3\<rparr>]"
  by (simp add: cellsIntoGrid_grid upt_0_3)

text \<open>
  Claim C1, as stated, fails when the image size is not a multiple of the grid: for a
  10 by 10 image cut 3 by 3 both backends make nine cells, but the second cell on the
  client is the source rectangle starting at \<open>10/3\<close> of width \<open>10/3\<close>, on the
  server the region starting at 3 of width 3; the centre of the last pixel column lies
  in the client's third cell and in no region of the server.
\<close>

theorem backends_differ_counterexample:
  "map (cellOfRegion \<circ> snd) (serverRegions 10 10 3 3) \<noteq> cellsIntoGrid 10 10 3 3 \<and>
   startX (cellsIntoGrid 10 10 3 3 ! 1) = 10 / 3 \<and>
   regionLeft (map snd (serverRegions 10 10 3 3) ! 1) = 3 \<and>
   cellWidth (cellsIntoGrid 10 10 3 3 ! 1) = 10 / 3 \<and>
   regionWidth (map snd (serverRegions 10 10 3 3) ! 1) = 3 \<and>
   inside (cellsIntoGrid 10 10 3 3 ! 2) (19 / 2) (1 / 2) \<and>
   \<not> list_ex (pointIn (19 / 2) (1 / 2))
       (map cellOfRegion (map snd (serverRegions 10 10 3 3)))"
proof -
  have "map (cellOfRegion \<circ> snd) (serverRegions 10 10 3 3) =
      map cellOfRegion (map snd (serverRegions 10 10 3 3))"
    by simp
  then show ?thesis
    unfolding regions_10_10_3_3 cells_10_10_3_3
    by (simp add: cellOfRegion_def inside_def pointIn_def)
qed

section \<open>What the uniform server grid covers\<close>

lemma int_quotient_bounds:
  fixes p c :: int
  assumes "0 < c"
  shows "c * (p div c) \<le> p" and "p < c * (p div c) + c"
proof -
  have "c * (p div c) + p mod c = p" by (rule mult_div_mod_eq)
  moreover have "0 \<le> p mod c" "p mod c < c" using assms by simp_all
  ultimately show "c * (p div c) \<le> p" and "p < c * (p div c) + c" by linarith+
qed

lemma int_quotient_less:
  fixes p c k :: int
  assumes "p < k * c" and "0 < c"
  shows "p div c < k"
proof (rule ccontr)
  assume "\<not> p div c < k"
  then have "k \<le> p div c" by simp
  then have "c * k \<le> c * (p div c)"
    using assms(2) by (intro mult_left_mono) simp_all
  with int_quotient_bounds(1) [OF assms(2), of p] assms(1) show False
    by (simp add: mult.commute)
qed

lemma covered_iff:
  fixes r k :: int and W H :: nat
  assumes r: "0 < r" and k: "0 < k"
  shows "list_ex (\<lambda>g. covers g px py) (map snd (serverRegions W H r k)) \<longleftrightarrow>
           0 \<le> px \<and> px < k * (int W div k) \<and> 0 \<le> py \<and> py < r * (int H div r)"
    (is "?L \<longleftrightarrow> ?R")
proof
  let ?cw = "int W div k" and ?ch = "int H div r"
  have cw: "0 \<le> ?cw" using k by (simp add: pos_imp_zdiv_nonneg_iff)
  have ch: "0 \<le> ?ch" using r by (simp add: pos_imp_zdiv_nonneg_iff)
  {
    assume ?L
    then obtain e where e: "e \<in> set (serverRegions W H r k)" and c: "covers (snd e) px py"
      by (auto simp: list_ex_iff)
    from serverRegions_member [OF e] obtain row col where
      row: "row < nat r" and col: "col < nat k"
      and eq: "snd e = \<lparr>regionLeft = int col * ?cw, regionTop = int row * ?ch,
                regionWidth = ?cw, regionHeight = ?ch\<rparr>"
      by auto
    from c eq have b: "int col * ?cw \<le> px" "px < int col * ?cw + ?cw"
      "int row * ?ch \<le> py" "py < int row * ?ch + ?ch"
      by (simp_all add: covers_def)
    have "(int col + 1) * ?cw \<le> k * ?cw"
      using col cw by (intro mult_right_mono) simp_all
    then have xr: "int col * ?cw + ?cw \<le> k * ?cw"
      by (simp add: algebra_simps)
    have "(int row + 1) * ?ch \<le> r * ?ch"
      using row ch by (intro mult_right_mono) simp_all
    then have yr: "int row * ?ch + ?ch \<le> r * ?ch"
      by (simp add: algebra_simps)
    have nn: "0 \<le> int col * ?cw" "0 \<le> int row * ?ch"
      using cw ch by simp_all
    from xr yr nn b show ?R by linarith
  }
  {
    assume R: ?R
    then have "0 < k * ?cw" and "0 < r * ?ch" by linarith+
    then have cwp: "0 < ?cw" and chp: "0 < ?ch"
      using k r by (auto intro: zero_less_mult_pos)
    let ?col = "nat (px div ?cw)" and ?row = "nat (py div ?ch)"
    have c0: "0 \<le> px div ?cw" and r0: "0 \<le> py div ?ch"
      using R cwp chp by (simp_all add: pos_imp_zdiv_nonneg_iff)
    have "px div ?cw < k"
      using R cwp by (intro int_quotient_less) simp_all
    then have col: "?col < nat k" using c0 by simp
    have "py div ?ch < r"
      using R chp by (intro int_quotient_less) simp_all
    then have row: "?row < nat r" using r0 by simp
    have x: "int ?col * ?cw \<le> px" "px < int ?col * ?cw + ?cw"
      using c0 int_quotient_bounds [OF cwp, of px] by (simp_all add: mult.commute)
    have y: "int ?row * ?ch \<le> py" "py < int ?row * ?ch + ?ch"
      using r0 int_quotient_bounds [OF chp, of py] by (simp_all add: mult.commute)
    let ?g = "\<lparr>regionLeft = int ?col * ?cw, regionTop = int ?row * ?ch,
               regionWidth = ?cw, regionHeight = ?ch\<rparr>"
    have "snd (serverRegions W H r k ! (?row * nat k + ?col)) = ?g"
      by (simp add: serverRegions_nth [OF row col])
    moreover have "?row * nat k + ?col < length (serverRegions W H r k)"
    proof -
      from row have "Suc ?row \<le> nat r" by (rule Suc_leI)
      then have le: "Suc ?row * nat k \<le> nat r * nat k"
        by (rule mult_le_mono1)
      from col have "?row * nat k + ?col < ?row * nat k + nat k"
        by (rule add_strict_left_mono)
      also have "\<dots> = Suc ?row * nat k" by simp
      finally have "?row * nat k + ?col < nat r * nat k"
        using le by (rule less_le_trans)
      then show ?thesis by (simp only: serverRegions_length)
    qed
    moreover have "covers ?g px py"
      using x y by (simp add: covers_def)
    ultimately show ?L
      unfolding list_ex_iff by (metis length_map nth_map nth_mem)
  }
qed

lemma region_sizes:
  assumes "g \<in> set (map snd (serverRegions W H r k))"
  shows "regionWidth g = \<lfloor>real W / real_of_int k\<rfloor> \<and> regionHeight g = \<lfloor>real H / real_of_int r\<rfloor>"
proof -
  from assms obtain e where "e \<in> set (serverRegions W H r k)" "g = snd e" by auto
  with serverRegions_member [of e W H r k] show ?thesis
    by (auto simp: floored_quotient)
qed

lemma all_covered_iff:
  fixes r k :: int and W H :: nat
  assumes r: "0 < r" and k: "0 < k" and W: "0 < W" and H: "0 < H"
  shows "(\<forall>px py. 0 \<le> px \<and> px < int W \<and> 0 \<le> py \<and> py < int H \<longrightarrow>
            list_ex (\<lambda>g. covers g px py) (map snd (serverRegions W H r k))) \<longleftrightarrow>
         k dvd int W \<and> r dvd int H"
    (is "?L \<longleftrightarrow> ?R")
proof
  assume ?R
  then have "k * (int W div k) = int W" "r * (int H div r) = int H" by simp_all
  then show ?L by (simp add: covered_iff [OF r k])
next
  assume L: ?L
  from W H have "0 \<le> int W - 1 \<and> int W - 1 < int W \<and> 0 \<le> int H - 1 \<and> int H - 1 < int H"
    by simp
  with L have "list_ex (\<lambda>g. covers g (int W - 1) (int H - 1)) (map snd (serverRegions W H r k))"
    by blast
  then have "int W - 1 < k * (int W div k)" "int H - 1 < r * (int H div r)"
    by (simp_all add: covered_iff [OF r k])
  with int_quotient_bounds(1) [OF k, of "int W"] int_quotient_bounds(1) [OF r, of "int H"]
  have "int W = k * (int W div k)" "int H = r * (int H div r)" by linarith+
  then show ?R by (metis dvd_triv_left)
qed

text \<open>
  Claim C2, as stated, fails in its second half: no cell absorbs a remainder. For a
  10 by 10 image cut 3 by 3 the last region is 3 by 3 and ends at 9, and the pixel
  \<open>(9, 9)\<close> lies in no region.
\<close>

theorem remainder_dropped_counterexample:
  "regionWidth (map snd (serverRegions 10 10 3 3) ! 8) = 3 \<and>
   regionHeight (map snd (serverRegions 10 10 3 3) ! 8) = 3 \<and>
   regionLeft (map snd (serverRegions 10 10 3 3) ! 8) +
     regionWidth (map snd (serverRegions 10 10 3 3) ! 8) = 9 \<and>
   regionTop (map snd (serverRegions 10 10 3 3) ! 8) +
     regionHeight (map snd (serverRegions 10 10 3 3) ! 8) = 9 \<and>
   \<not> list_ex (pixelIn 9 9) (map snd (serverRegions 10 10 3 3))"
  unfolding regions_10_10_3_3 by (simp add: covers_def pixelIn_def)

text \<open>
  Claim C2, amended. For positive row and column counts and a non-empty image, every
  region of the route has width \<open>\<lfloor>W / columns\<rfloor>\<close> and height \<open>\<lfloor>H / rows\<rfloor>\<close>
  (all cells are of equal size); a pixel lies in some region exactly when its column is
  below \<open>columns * \<lfloor>W / columns\<rfloor>\<close> and its row below \<open>rows * \<lfloor>H / rows\<rfloor>\<close>; so
  the regions cover every pixel of the image exactly when \<open>columns\<close> divides \<open>W\<close>
  and \<open>rows\<close> divides \<open>H\<close>, and otherwise the remainder at the right and bottom
  edges is left out.
\<close>

theorem uniform_server_cells:
  fixes r k :: int and W H :: nat
  assumes "0 < r" and "0 < k" and "0 < W" and "0 < H"
  shows "length (serverRegions W H r k) = nat r * nat k \<and>
         (\<forall>g\<in>set (map snd (serverRegions W H r k)).
            regionWidth g = \<lfloor>real W / real_of_int k\<rfloor> \<and>
            regionHeight g = \<lfloor>real H / real_of_int r\<rfloor>) \<and>
         (\<forall>px py. list_ex (\<lambda>g. covers g px py) (map snd (serverRegions W H r k)) \<longleftrightarrow>
            0 \<le> px \<and> px < k * \<lfloor>real W / real_of_int k\<rfloor> \<and>
            0 \<le> py \<and> py < r * \<lfloor>real H / real_of_int r\<rfloor>) \<and>
         ((\<forall>px py. 0 \<le> px \<and> px < int W \<and> 0 \<le> py \<and> py < int H \<longrightarrow>
             list_ex (\<lambda>g. covers g px py) (map snd (serverRegions W H r k))) \<longleftrightarrow>
          k dvd int W \<and> r dvd int H)"
  using serverRegions_length [of W H r k] region_sizes [of _ W H r k]
    covered_iff [OF assms(1,2), of _ _ W H] all_covered_iff [OF assms]
  unfolding floored_quotient by blast

theorem uniform_server_cells_witness:
  "(0::int) < 3 \<and> (0::nat) < 300 \<and> length (serverRegions 300 300 3 3) = 9 \<and>
   list_ex (\<lambda>g. covers g 299 299) (map snd (serverRegions 300 300 3 3))"
proof -
  have r: "(0::int) < 3" and w: "(0::nat) < 300" by simp_all
  note all = uniform_server_cells [OF r r w w]
  from all have "length (serverRegions 300 300 3 3) = nat 3 * nat 3" by blast
  then have len: "length (serverRegions 300 300 3 3) = 9" by simp
  from all have "list_ex (\<lambda>g. covers g 299 299) (map snd (serverRegions 300 300 3 3)) \<longleftrightarrow>
      (0::int) \<le> 299 \<and> 299 < 3 * \<lfloor>real 300 / real_of_int 3\<rfloor> \<and>
      (0::int) \<le> 299 \<and> 299 < 3 * \<lfloor>real 300 / real_of_int 3\<rfloor>"
    by blast
  then have "list_ex (\<lambda>g. covers g 299 299) (map snd (serverRegions 300 300 3 3))"
    by simp
  with r w len show ?thesis by blast
qed

section \<open>Validation in the route\<close>

text \<open>
  Claim C10. A request without an image, or whose row or column count is missing, not
  a number or zero, is answered at once with status 400 and the JSON error
  \<open>Missing required parameters\<close>, whatever else it contains. A negative count
  passes the check \<open>!rows || !columns\<close>: the loops then run zero times and the route
  answers with an empty archive instead of an error.
\<close>

theorem POST_validation:
  "POST sharp order (form\<lparr>imageField := None\<rparr>) = Json 400 ''Missing required parameters'' \<and>
   POST sharp order (form\<lparr>rowsField := None\<rparr>) = Json 400 ''Missing required parameters'' \<and>
   POST sharp order (form\<lparr>columnsField := None\<rparr>) = Json 400 ''Missing required parameters'' \<and>
   POST sharp order (form\<lparr>rowsField := Some 0\<rparr>) = Json 400 ''Missing required parameters'' \<and>
   POST sharp order (form\<lparr>columnsField := Some 0\<rparr>) = Json 400 ''Missing required parameters'' \<and>
   POST tenByTen order \<lparr>imageField = Some (), rowsField = Some (- 1), columnsField = Some 3\<rparr> =
     ZipBody [] \<and>
   POST tenByTen order \<lparr>imageField = Some (), rowsField = Some 3, columnsField = Some (- 2)\<rparr> =
     ZipBody []"
  by (simp add: POST_def tenByTen_def serverRegions_grid assemble_def upt_0_3
      split: option.splits prod.splits)

section \<open>Archive contents\<close>

text \<open>Reading the digits back gives the number.\<close>

lemma digit_code: "d < 10 \<Longrightarrow> of_char (char_of (48 + d) :: char) = (48 + d :: nat)"
  by simp

lemma decimal_read_back:
  "foldl (\<lambda>a c. 10 * a + (of_char c - 48)) 0 (decimal n) = n"
proof (induction n rule: decimal.induct)
  case (1 n)
  show ?case
  proof (cases "n < 10")
    case True
    then show ?thesis
      by (subst decimal.simps) (simp add: digit_code)
  next
    case False
    have "n mod 10 < 10" by simp
    with False 1 show ?thesis
      by (subst decimal.simps) (simp add: digit_code)
  qed
qed

lemma decimal_inj: "decimal a = decimal b \<Longrightarrow> a = b"
  by (metis decimal_read_back)

lemma imageName_inj: "imageName a = imageName b \<longleftrightarrow> a = b"
  by (auto simp: imageName_def dest: decimal_inj)

lemma concat_byteArrays:
  "concat (byteArrays s offset) = map of_char (drop offset s)"
proof (induction s offset rule: byteArrays.induct)
  case (1 s offset)
  show ?case
  proof (cases "offset < length s")
    case True
    have "take 512 (drop offset s) @ drop (offset + 512) s = drop offset s"
      by (metis add.commute append_take_drop_id drop_drop)
    then have "map of_char (take 512 (drop offset s)) @ map of_char (drop (offset + 512) s) =
        (map of_char (drop offset s) :: nat list)"
      by (metis map_append)
    with True 1 show ?thesis
      by (subst byteArrays.simps) simp
  next
    case False
    then show ?thesis
      by (subst byteArrays.simps) simp
  qed
qed

lemma b64toBlob_bytes:
  "b64toBlob atob data = map_option (map of_char) (atob data)"
  by (simp add: b64toBlob_def concat_byteArrays split: option.splits)

lemma zipFile_fresh:
  "name \<notin> fst ` set z \<Longrightarrow> zipFile name d z = z @ [(name, d)]"
  by (induction z) auto

lemma addImages_appends:
  assumes "length decoded = length urls"
    and "\<forall>i<length urls. atob (payload (urls ! i)) = Some (decoded ! i)"
    and "fst ` set z \<subseteq> imageName ` {..index}"
  shows "addImages atob urls index z =
           Some (z @ map (\<lambda>i. (imageName (index + i + 1), map of_char (decoded ! i)))
                       [0..<length urls])"
  using assms
proof (induction urls arbitrary: decoded index z)
  case Nil
  then show ?case by simp
next
  case (Cons u urls)
  from Cons.prems(1) obtain d ds where dec: "decoded = d # ds" and len: "length ds = length urls"
    by (cases decoded) auto
  from Cons.prems(2) dec have first: "atob (payload u) = Some d"
    and rest: "\<forall>i<length urls. atob (payload (urls ! i)) = Some (ds ! i)"
    by auto
  have fresh: "imageName (index + 1) \<notin> fst ` set z"
    using Cons.prems(3) by (auto simp: imageName_inj)
  let ?z = "z @ [(imageName (index + 1), map of_char d)]"
  have names: "fst ` set ?z \<subseteq> imageName ` {..Suc index}"
    using Cons.prems(3) by auto
  have shift: "map (\<lambda>i. (imageName (index + i + 1), map of_char ((d # ds) ! i)))
        [0..<length (u # urls)] =
      (imageName (index + 1), map of_char d) #
      map (\<lambda>i. (imageName (Suc index + i + 1), map of_char (ds ! i))) [0..<length urls]"
    by (simp add: upt_conv_Cons map_Suc_upt [symmetric] del: upt_Suc)
  from Cons.IH [OF len rest names] first fresh show ?case
    unfolding dec shift by (simp add: b64toBlob_bytes zipFile_fresh)
qed

lemma createAndDownloadZip_archive:
  assumes "length decoded = length urls"
    and "\<forall>i<length urls. atob (payload (urls ! i)) = Some (decoded ! i)"
  shows "createAndDownloadZip atob urls fileName =
           Inr (fileName @ ''.zip'',
                map (\<lambda>i. (imageName (i + 1), map of_char (decoded ! i))) [0..<length urls])"
  using addImages_appends [OF assms, of "[]" 0]
  by (simp add: createAndDownloadZip_def)

lemma allResolved_all:
  "allResolved (map (\<lambda>(name, g). (name, Some (buf g))) regs) =
     Some (map (\<lambda>(name, g). (name, buf g)) regs)"
  by (induction regs) auto

lemma fold_zipFile_fresh:
  assumes "distinct (map (\<lambda>n. fst (cb ! n)) ns)"
    and "\<forall>n\<in>set ns. fst (cb ! n) \<notin> fst ` set z"
  shows "fold (\<lambda>n z. case cb ! n of (name, buf) \<Rightarrow> zipFile name buf z) ns z =
           z @ map (\<lambda>n. cb ! n) ns"
  using assms
proof (induction ns arbitrary: z)
  case Nil
  then show ?case by simp
next
  case (Cons n ns)
  obtain name buf where n: "cb ! n = (name, buf)" by (cases "cb ! n")
  from Cons.prems n have fresh: "name \<notin> fst ` set z" by simp
  have "distinct (map (\<lambda>n. fst (cb ! n)) ns)"
    using Cons.prems by simp
  moreover have "\<forall>m\<in>set ns. fst (cb ! m) \<notin> fst ` set (z @ [(name, buf)])"
    using Cons.prems n by auto
  ultimately
  have "fold (\<lambda>n z. case cb ! n of (name, buf) \<Rightarrow> zipFile name buf z) ns (z @ [(name, buf)]) =
      (z @ [(name, buf)]) @ map (\<lambda>n. cb ! n) ns"
    by (rule Cons.IH)
  with n fresh show ?case by (simp add: zipFile_fresh)
qed

lemma serverRegions_name:
  assumes "n < nat r * nat k"
  shows "fst (serverRegions w h r k ! n) = imageName (n + 1)"
proof -
  let ?K = "nat k"
  from assms have K: "0 < ?K" by (cases "?K = 0") simp_all
  then have k: "int ?K = k" by simp
  let ?row = "n div ?K" and ?col = "n mod ?K"
  have row: "?row < nat r"
    using assms by (simp add: less_mult_imp_div_less)
  have col: "?col < ?K" using K by simp
  have n: "?row * ?K + ?col = n" by (rule div_mult_mod_eq)
  have "int ?row * int ?K + int ?col + 1 = int (?row * ?K + ?col + 1)"
    by (simp only: of_nat_add of_nat_mult of_nat_1)
  then have "int ?row * k + int ?col + 1 = int (n + 1)"
    by (simp only: n k)
  then have "nat (int ?row * k + int ?col + 1) = n + 1"
    by (simp only: nat_int)
  with serverRegions_nth [OF row col, of w h] show ?thesis
    by (simp only: n fst_conv)
qed

lemma assemble_all:
  fixes cb :: "(string \<times> 'b) list"
  assumes names: "\<forall>n<length cb. fst (cb ! n) = imageName (n + 1)"
    and order: "distinct order" "set order = {..<length cb}"
  shows "assemble order cb = map (\<lambda>n. cb ! n) order"
proof -
  have keep: "filter (\<lambda>n. n < length cb) order = order"
    using order(2) by (auto intro: filter_True)
  have "map (\<lambda>n. fst (cb ! n)) order = map (\<lambda>n. imageName (n + 1)) order"
    using names order(2) by auto
  moreover have "distinct (map (\<lambda>n. imageName (n + 1)) order)"
    using order(1) by (simp add: distinct_map inj_on_def imageName_inj)
  ultimately have "distinct (map (\<lambda>n. fst (cb ! n)) order)" by (simp only:)
  from fold_zipFile_fresh [OF this, of "[]"] show ?thesis
    by (simp add: assemble_def keep)
qed

lemma POST_archive:
  fixes sharp :: "('f, 'b) Sharp"
  assumes form: "imageField form = Some f" "rowsField form = Some r" "columnsField form = Some k"
    and pos: "0 < r" "0 < k"
    and meta: "metadata sharp f = Some (Some w, Some h)" "0 < w" "0 < h"
    and ok: "\<forall>g\<in>set (map snd (serverRegions w h r k)). extractRegion sharp f g = Some (buf g)"
    and order: "distinct order" "set order = {..<nat r * nat k}"
  shows "POST sharp order form =
           ZipBody (map (\<lambda>n. (imageName (n + 1), buf (snd (serverRegions w h r k ! n)))) order)"
proof -
  let ?regs = "serverRegions w h r k"
  let ?cb = "map (\<lambda>(name, g). (name, buf g)) ?regs"
  have "map (\<lambda>(name, region). (name, extractRegion sharp f region)) ?regs =
      map (\<lambda>(name, g). (name, Some (buf g))) ?regs"
    using ok by (auto intro!: map_cong)
  then have res: "allResolved (map (\<lambda>(name, region). (name, extractRegion sharp f region)) ?regs) =
      Some ?cb"
    by (simp only: allResolved_all)
  have len: "length ?cb = nat r * nat k" by (simp add: serverRegions_length)
  have nth: "?cb ! n = (imageName (n + 1), buf (snd (?regs ! n)))" if "n < nat r * nat k" for n
    using that serverRegions_name [OF that, of w h]
    by (simp add: serverRegions_length case_prod_beta)
  have names: "\<forall>n<length ?cb. fst (?cb ! n) = imageName (n + 1)"
    using nth by (simp only: len fst_conv) simp
  have "set order = {..<length ?cb}"
    using order(2) by (simp only: len)
  with names order(1) have "assemble order ?cb = map (\<lambda>n. ?cb ! n) order"
    by (intro assemble_all)
  also have "\<dots> = map (\<lambda>n. (imageName (n + 1), buf (snd (?regs ! n)))) order"
    using order(2) nth by (intro map_cong) auto
  finally have "assemble order ?cb =
      map (\<lambda>n. (imageName (n + 1), buf (snd (?regs ! n)))) order" .
  with form pos meta res show ?thesis
    by (simp add: POST_def)
qed

lemma length_of_order:
  assumes "distinct order" and "set order = {..<N}"
  shows "length order = N"
  using distinct_card [OF assms(1)] assms(2) by simp

lemma decimal_digit: "n < 10 \<Longrightarrow> decimal n = [char_of (48 + n)]"
  by (subst decimal.simps) simp

lemma imageName_1: "imageName (Suc 0) = ''image_1.png''"
  by (simp add: imageName_def decimal_digit char_of_def bit_iff_odd)

lemma imageName_2: "imageName 2 = ''image_2.png''"
  by (simp add: imageName_def decimal_digit char_of_def bit_iff_odd)

lemma imageName_2_Suc: "imageName (Suc (Suc 0)) = ''image_2.png''"
  using imageName_2 by (simp only: numeral_2_eq_2)

text \<open>
  Claim C9. Client: when every data URL of the sequence decodes, the archive handed to
  \<open>saveAs\<close> has one entry per image, entry \<open>i\<close> (from 0) is named
  \<open>image_<i + 1>.png\<close> and holds the character codes of the decoded payload of image
  \<open>i\<close>, and the names are pairwise different. Server: for a valid request whose
  extractions all succeed, in whatever order the extractions complete, the archive has
  \<open>rows * columns\<close> entries with pairwise different names, the names are exactly
  \<open>image_1.png\<close> to \<open>image_<rows * columns>.png\<close>, and the entry
  \<open>image_<n + 1>.png\<close> holds the buffer extracted for the \<open>n\<close>-th cell of the
  row-major loops.
\<close>

theorem archive_entries:
  fixes sharp :: "('f, 'b) Sharp"
  shows
  "(length decoded = length gridImages \<and>
    (\<forall>i<length gridImages. atob (payload (gridImages ! i)) = Some (decoded ! i)) \<longrightarrow>
      (\<exists>archive. createAndDownloadZip atob gridImages fileName =
           Inr (fileName @ ''.zip'', archive) \<and>
         length archive = length gridImages \<and> distinct (map fst archive) \<and>
         (\<forall>i<length gridImages.
            archive ! i = (imageName (i + 1), map of_char (decoded ! i))))) \<and>
   (imageField form = Some f \<and> rowsField form = Some r \<and> columnsField form = Some k \<and>
    0 < r \<and> 0 < k \<and> metadata sharp f = Some (Some w, Some h) \<and> 0 < w \<and> 0 < h \<and>
    (\<forall>g\<in>set (map snd (serverRegions w h r k)). extractRegion sharp f g = Some (buf g)) \<and>
    distinct order \<and> set order = {..<nat r * nat k} \<longrightarrow>
      (\<exists>archive. POST sharp order form = ZipBody archive \<and>
         length archive = nat r * nat k \<and> distinct (map fst archive) \<and>
         fst ` set archive = imageName ` {1..nat r * nat k} \<and>
         (\<forall>n<nat r * nat k.
            map_of archive (imageName (n + 1)) = Some (buf (snd (serverRegions w h r k ! n))))))"
proof (intro conjI impI)
  assume "length decoded = length gridImages \<and>
    (\<forall>i<length gridImages. atob (payload (gridImages ! i)) = Some (decoded ! i))"
  then have eq: "createAndDownloadZip atob gridImages fileName =
      Inr (fileName @ ''.zip'',
           map (\<lambda>i. (imageName (i + 1), map of_char (decoded ! i))) [0..<length gridImages])"
    by (intro createAndDownloadZip_archive) simp_all
  let ?archive = "map (\<lambda>i. (imageName (i + 1), map of_char (decoded ! i)) :: string \<times> nat list)
      [0..<length gridImages]"
  have "distinct (map fst ?archive)"
    by (simp add: distinct_map comp_def inj_on_def imageName_inj)
  moreover have "length ?archive = length gridImages" by simp
  moreover have "\<forall>i<length gridImages.
      ?archive ! i = (imageName (i + 1), map of_char (decoded ! i))"
    by simp
  ultimately show "\<exists>archive. createAndDownloadZip atob gridImages fileName =
           Inr (fileName @ ''.zip'', archive) \<and>
         length archive = length gridImages \<and> distinct (map fst archive) \<and>
         (\<forall>i<length gridImages.
            archive ! i = (imageName (i + 1), map of_char (decoded ! i)))"
    using eq by (intro exI [of _ ?archive]) simp
next
  let ?N = "nat r * nat k"
  let ?regs = "serverRegions w h r k"
  assume a: "imageField form = Some f \<and> rowsField form = Some r \<and> columnsField form = Some k \<and>
    0 < r \<and> 0 < k \<and> metadata sharp f = Some (Some w, Some h) \<and> 0 < w \<and> 0 < h \<and>
    (\<forall>g\<in>set (map snd ?regs). extractRegion sharp f g = Some (buf g)) \<and>
    distinct order \<and> set order = {..<?N}"
  let ?archive = "map (\<lambda>n. (imageName (n + 1), buf (snd (?regs ! n)))) order"
  from a have form: "imageField form = Some f" "rowsField form = Some r"
    "columnsField form = Some k" by blast+
  from a have pos: "0 < r" "0 < k" by blast+
  from a have meta: "metadata sharp f = Some (Some w, Some h)" "0 < w" "0 < h" by blast+
  from a have ok: "\<forall>g\<in>set (map snd ?regs). extractRegion sharp f g = Some (buf g)"
    by blast
  from a have order: "distinct order" "set order = {..<?N}" by blast+
  have eq: "POST sharp order form = ZipBody ?archive"
    using form pos meta ok order by (rule POST_archive)
  have len: "length ?archive = ?N"
    using length_of_order [OF order] by simp
  have names: "map fst ?archive = map (\<lambda>n. imageName (n + 1)) order"
    by (simp add: comp_def)
  have dist: "distinct (map fst ?archive)"
    unfolding names using order(1) by (simp add: distinct_map inj_on_def imageName_inj)
  have "fst ` set ?archive = (\<lambda>n. imageName (n + 1)) ` {..<?N}"
    using order(2) by (simp add: image_image)
  also have "\<dots> = imageName ` {1..?N}"
  proof -
    have "(\<lambda>n. imageName (n + 1)) ` {..<?N} = imageName ` (Suc ` {..<?N})"
      by (simp add: image_image)
    then show ?thesis by (simp only: image_Suc_lessThan)
  qed
  finally have all: "fst ` set ?archive = imageName ` {1..?N}" .
  have look: "map_of ?archive (imageName (n + 1)) = Some (buf (snd (?regs ! n)))" if "n < ?N" for n
  proof -
    from that order(2) have "n \<in> set order" by simp
    then have "(imageName (n + 1), buf (snd (?regs ! n))) \<in> set ?archive" by auto
    with dist show ?thesis by (rule map_of_is_SomeI)
  qed
  have look': "\<forall>n<?N. map_of ?archive (imageName (n + 1)) = Some (buf (snd (?regs ! n)))"
    using look by blast
  from eq len dist all look'
  show "\<exists>archive. POST sharp order form = ZipBody archive \<and>
         length archive = ?N \<and> distinct (map fst archive) \<and>
         fst ` set archive = imageName ` {1..?N} \<and>
         (\<forall>n<?N. map_of archive (imageName (n + 1)) = Some (buf (snd (?regs ! n))))"
    by (intro exI [of _ ?archive] conjI)
qed

theorem archive_entries_witness:
  "createAndDownloadZip exampleAtob [''data:image/png;base64,QUI='', ''data:,''] ''grid-images'' =
     Inr (''grid-images.zip'', [(''image_1.png'', [65, 66]), (''image_2.png'', [])]) \<and>
   (\<exists>archive. POST tenByTen [1, 0]
        \<lparr>imageField = Some (), rowsField = Some 1, columnsField = Some 2\<rparr> = ZipBody archive \<and>
      length archive = 2 \<and>
      map_of archive ''image_2.png'' =
        Some \<lparr>regionLeft = 5, regionTop = 0, regionWidth = 5, regionHeight = 10\<rparr>)"
proof -
  let ?urls = "[''data:image/png;base64,QUI='', ''data:,'']"
  let ?decoded = "[''AB'', '''']"
  have len: "length ?decoded = length ?urls" by simp
  have dec: "\<forall>i<length ?urls. exampleAtob (payload (?urls ! i)) = Some (?decoded ! i)"
    by (simp add: payload_def exampleAtob_def less_Suc_eq)
  from archive_entries [THEN conjunct1, rule_format, OF conjI, OF len dec, of "''grid-images''"]
  obtain archive where
    res: "createAndDownloadZip exampleAtob ?urls ''grid-images'' = Inr (''grid-images.zip'', archive)"
    and n: "length archive = 2"
    and e: "\<forall>i<length ?urls. archive ! i = (imageName (i + 1), map of_char (?decoded ! i))"
    by auto
  from e [rule_format, of 0] have "archive ! 0 = (''image_1.png'', [65, 66])"
    by (simp add: imageName_1)
  moreover from e [rule_format, of 1] have "archive ! 1 = (''image_2.png'', [])"
    by (simp add: imageName_2 imageName_2_Suc)
  ultimately have "archive = [(''image_1.png'', [65, 66]), (''image_2.png'', [])]"
    using n by (intro nth_equalityI) (auto simp: less_Suc_eq numeral_2_eq_2)
  with res have client:
    "createAndDownloadZip exampleAtob ?urls ''grid-images'' =
       Inr (''grid-images.zip'', [(''image_1.png'', [65, 66]), (''image_2.png'', [])])"
    by simp
  let ?form = "\<lparr>imageField = Some (), rowsField = Some 1, columnsField = Some 2\<rparr>"
  have regs: "serverRegions 10 10 1 2 =
      [(imageName 1, \<lparr>regionLeft = 0, regionTop = 0, regionWidth = 5, regionHeight = 10\<rparr>),
       (imageName 2, \<lparr>regionLeft = 5, regionTop = 0, regionWidth = 5, regionHeight = 10\<rparr>)]"
    by (simp add: serverRegions_grid upt_conv_Cons)
  have hyp: "imageField ?form = Some () \<and> rowsField ?form = Some 1 \<and> columnsField ?form = Some 2 \<and>
      (0::int) < 1 \<and> (0::int) < 2 \<and> metadata tenByTen () = Some (Some 10, Some 10) \<and>
      (0::nat) < 10 \<and> (0::nat) < 10 \<and>
      (\<forall>g\<in>set (map snd (serverRegions 10 10 1 2)). extractRegion tenByTen () g = Some (id g)) \<and>
      distinct [1, 0::nat] \<and> set [1, 0::nat] = {..<nat 1 * nat 2}"
    by (auto simp: tenByTen_def)
  from archive_entries [THEN conjunct2, rule_format, OF hyp]
  obtain zipped where post: "POST tenByTen [1, 0] ?form = ZipBody zipped"
    and m: "length zipped = nat 1 * nat 2"
    and l: "\<forall>n<nat 1 * nat 2. map_of zipped (imageName (n + 1)) =
        Some (id (snd (serverRegions 10 10 1 2 ! n)))"
    by blast
  from l [rule_format, of 1] have "map_of zipped ''image_2.png'' =
      Some \<lparr>regionLeft = 5, regionTop = 0, regionWidth = 5, regionHeight = 10\<rparr>"
    by (simp add: regs imageName_2 imageName_2_Suc)
  with post m client show ?thesis by auto
qed

section \<open>The two backends side by side\<close>

lemma allResolved_rejected:
  "(a, None) \<in> set xs \<Longrightarrow> allResolved xs = None"
proof (induction xs)
  case Nil
  then show ?case by simp
next
  case (Cons x xs)
  obtain n e where x: "x = (n, e)" by (cases x)
  show ?case
  proof (cases e)
    case None
    with x show ?thesis by simp
  next
    case (Some buf)
    with Cons x show ?thesis by auto
  qed
qed

lemma POST_rejected:
  fixes sharp :: "('f, 'b) Sharp"
  assumes form: "imageField form = Some f" "rowsField form = Some r" "columnsField form = Some k"
    and pos: "0 < r" "0 < k"
    and meta: "metadata sharp f = Some (Some w, Some h)" "0 < w" "0 < h"
    and bad: "g \<in> set (map snd (serverRegions w h r k))" "extractRegion sharp f g = None"
  shows "POST sharp order form = Json 500 ''Failed to process image''"
proof -
  from bad(1) obtain name where "(name, g) \<in> set (serverRegions w h r k)" by auto
  then have "(name, None) \<in>
      set (map (\<lambda>(name, region). (name, extractRegion sharp f region)) (serverRegions w h r k))"
    using bad(2) by force
  then have "allResolved
      (map (\<lambda>(name, region). (name, extractRegion sharp f region)) (serverRegions w h r k)) = None"
    by (rule allResolved_rejected)
  with form pos meta show ?thesis by (simp add: POST_def)
qed

lemma POST_archive_lookup:
  fixes sharp :: "('f, 'b) Sharp"
  assumes form: "imageField form = Some f" "rowsField form = Some r" "columnsField form = Some k"
    and pos: "0 < r" "0 < k"
    and meta: "metadata sharp f = Some (Some w, Some h)" "0 < w" "0 < h"
    and ok: "\<forall>g\<in>set (map snd (serverRegions w h r k)). extractRegion sharp f g = Some (buf g)"
    and order: "distinct order" "set order = {..<nat r * nat k}"
  shows "\<exists>archive. POST sharp order form = ZipBody archive \<and>
           length archive = nat r * nat k \<and> distinct (map fst archive) \<and>
           (\<forall>n<nat r * nat k.
              map_of archive (imageName (n + 1)) = Some (buf (snd (serverRegions w h r k ! n))))"
proof -
  let ?N = "nat r * nat k"
  let ?regs = "serverRegions w h r k"
  let ?archive = "map (\<lambda>n. (imageName (n + 1), buf (snd (?regs ! n)))) order"
  have eq: "POST sharp order form = ZipBody ?archive"
    using form pos meta ok order by (rule POST_archive)
  have len: "length ?archive = ?N"
    using length_of_order [OF order] by simp
  have names: "map fst ?archive = map (\<lambda>n. imageName (n + 1)) order"
    by (simp add: comp_def)
  have dist: "distinct (map fst ?archive)"
    unfolding names using order(1) by (simp add: distinct_map inj_on_def imageName_inj)
  have look: "\<forall>n<?N. map_of ?archive (imageName (n + 1)) = Some (buf (snd (?regs ! n)))"
  proof (intro allI impI)
    fix n assume "n < ?N"
    with order(2) have "n \<in> set order" by simp
    then have "(imageName (n + 1), buf (snd (?regs ! n))) \<in> set ?archive" by auto
    with dist show "map_of ?archive (imageName (n + 1)) = Some (buf (snd (?regs ! n)))"
      by (rule map_of_is_SomeI)
  qed
  from eq len dist look show ?thesis
    by (intro exI [of _ ?archive] conjI)
qed

lemma grid_index_less:
  fixes r k :: nat
  assumes "row < r" and "col < k"
  shows "row * k + col < r * k"
proof -
  from assms(1) have "Suc row \<le> r" by (rule Suc_leI)
  then have "Suc row * k \<le> r * k" by (rule mult_le_mono1)
  moreover from assms(2) have "row * k + col < Suc row * k" by simp
  ultimately show ?thesis by (rule less_le_trans [rotated])
qed

text \<open>
  Claim C1, amended. For at least one row and one column, an image that loads with a
  context on the client, and a valid request for the same image on the server:
  \<open>cutImageIntoGrid\<close> returns \<open>rows * columns\<close> data URLs in row-major order, cell
  \<open>row * columns + col\<close> drawn from the rectangle of size \<open>W / columns\<close> by
  \<open>H / rows\<close> at \<open>(col * W / columns, row * H / rows)\<close> on a canvas sized once with
  these two numbers. When every extraction succeeds, the route answers, for every
  completion order, with an archive of \<open>rows * columns\<close> entries in which
  \<open>image_<row * columns + col + 1>.png\<close> is the region of size
  \<open>\<lfloor>W / columns\<rfloor>\<close> by \<open>\<lfloor>H / rows\<rfloor>\<close> at
  \<open>(col * \<lfloor>W / columns\<rfloor>, row * \<lfloor>H / rows\<rfloor>)\<close>; when an extraction is rejected it
  answers with status 500 and no cell. The canvas of the client has the pixel size of
  the server's regions (image sizes are unsigned long values, below \<open>2^32\<close>). When
  \<open>columns\<close> divides \<open>W\<close> and \<open>rows\<close> divides \<open>H\<close> the source rectangles of
  the two backends are the same, cell by cell.
\<close>

theorem uniform_backends_agree_when_exact:
  fixes W H r k :: nat and b :: "'u Browser" and sharp :: "('f, 'b) Sharp"
  assumes grid: "0 < r" "0 < k"
    and client: "imageLoads b" "hasContext b" "imgWidth b = W" "imgHeight b = H"
    and request: "imageField form = Some f" "rowsField form = Some (int r)"
      "columnsField form = Some (int k)"
      "metadata sharp f = Some (Some W, Some H)" "0 < W" "0 < H"
    and order: "distinct order" "set order = {..<r * k}"
  shows
    "(\<exists>urls. cutImageIntoGrid b r k = Inr urls \<and> length urls = r * k \<and>
        (\<forall>row col. row < r \<and> col < k \<longrightarrow>
           urls ! (row * k + col) =
             toDataURL b (toUnsignedLong (real W / real k), toUnsignedLong (real H / real r))
               \<lparr>startX = real col * (real W / real k), startY = real row * (real H / real r),
                cellWidth = real W / real k, cellHeight = real H / real r\<rparr>)) \<and>
     ((\<forall>g\<in>set (map snd (serverRegions W H (int r) (int k))).
         extractRegion sharp f g = Some (buf g)) \<longrightarrow>
        (\<exists>archive. POST sharp order form = ZipBody archive \<and> length archive = r * k \<and>
           distinct (map fst archive) \<and>
           (\<forall>row col. row < r \<and> col < k \<longrightarrow>
              map_of archive (imageName (row * k + col + 1)) =
                Some (buf \<lparr>regionLeft = int col * \<lfloor>real W / real k\<rfloor>,
                           regionTop = int row * \<lfloor>real H / real r\<rfloor>,
                           regionWidth = \<lfloor>real W / real k\<rfloor>,
                           regionHeight = \<lfloor>real H / real r\<rfloor>\<rparr>)))) \<and>
     ((\<exists>g\<in>set (map snd (serverRegions W H (int r) (int k))).
         extractRegion sharp f g = None) \<longrightarrow>
        POST sharp order form = Json 500 ''Failed to process image'') \<and>
     (W < 2 ^ 32 \<and> H < 2 ^ 32 \<longrightarrow>
        int (toUnsignedLong (real W / real k)) = \<lfloor>real W / real k\<rfloor> \<and>
        int (toUnsignedLong (real H / real r)) = \<lfloor>real H / real r\<rfloor>) \<and>
     (k dvd W \<and> r dvd H \<longrightarrow>
        real_of_int \<lfloor>real W / real k\<rfloor> = real W / real k \<and>
        real_of_int \<lfloor>real H / real r\<rfloor> = real H / real r \<and>
        map (cellOfRegion \<circ> snd) (serverRegions W H (int r) (int k)) = cellsIntoGrid W H r k)"
    (is "?client \<and> ?server \<and> ?failed \<and> ?dims \<and> ?exact")
proof -
  let ?size = "(toUnsignedLong (real W / real k), toUnsignedLong (real H / real r))"
  let ?urls = "map (toDataURL b ?size) (cellsIntoGrid W H r k)"
  have fw: "\<lfloor>real W / real k\<rfloor> = int W div int k"
    using floored_quotient [of W "int k"] by simp
  have fh: "\<lfloor>real H / real r\<rfloor> = int H div int r"
    using floored_quotient [of H "int r"] by simp
  have client: ?client
  proof (intro exI [of _ ?urls] conjI allI impI)
    show "cutImageIntoGrid b r k = Inr ?urls"
      using client by (simp add: cutImageIntoGrid_def)
    show "length ?urls = r * k" by (simp add: cellsIntoGrid_length)
    fix row col assume rc: "row < r \<and> col < k"
    then have "row * k + col < length (cellsIntoGrid W H r k)"
      by (simp add: cellsIntoGrid_length grid_index_less)
    then have "?urls ! (row * k + col) =
        toDataURL b ?size (cellsIntoGrid W H r k ! (row * k + col))"
      by (rule nth_map)
    with rc show "?urls ! (row * k + col) =
        toDataURL b ?size
          \<lparr>startX = real col * (real W / real k), startY = real row * (real H / real r),
           cellWidth = real W / real k, cellHeight = real H / real r\<rparr>"
      by (simp only: cellsIntoGrid_nth)
  qed
  have pos: "0 < int r" "0 < int k" using grid by simp_all
  have order': "set order = {..<nat (int r) * nat (int k)}" using order(2) by simp
  have server: ?server
  proof
    assume ok: "\<forall>g\<in>set (map snd (serverRegions W H (int r) (int k))).
        extractRegion sharp f g = Some (buf g)"
    from POST_archive_lookup [OF request(1-3) pos request(4-6) ok order(1) order']
    obtain archive where post: "POST sharp order form = ZipBody archive"
      and len: "length archive = r * k" and dist: "distinct (map fst archive)"
      and look: "\<forall>n<r * k. map_of archive (imageName (n + 1)) =
        Some (buf (snd (serverRegions W H (int r) (int k) ! n)))"
      by auto
    have "map_of archive (imageName (row * k + col + 1)) =
        Some (buf \<lparr>regionLeft = int col * \<lfloor>real W / real k\<rfloor>,
                   regionTop = int row * \<lfloor>real H / real r\<rfloor>,
                   regionWidth = \<lfloor>real W / real k\<rfloor>,
                   regionHeight = \<lfloor>real H / real r\<rfloor>\<rparr>)"
      if rc: "row < r \<and> col < k" for row col
    proof -
      from rc have "row * k + col < r * k" by (simp add: grid_index_less)
      with look have "map_of archive (imageName (row * k + col + 1)) =
          Some (buf (snd (serverRegions W H (int r) (int k) ! (row * k + col))))"
        by blast
      moreover have "snd (serverRegions W H (int r) (int k) ! (row * k + col)) =
          \<lparr>regionLeft = int col * (int W div int k), regionTop = int row * (int H div int r),
           regionWidth = int W div int k, regionHeight = int H div int r\<rparr>"
        using serverRegions_nth [of row "int r" col "int k" W H] rc by simp
      ultimately show ?thesis by (simp only: fw fh)
    qed
    with post len dist show "\<exists>archive. POST sharp order form = ZipBody archive \<and>
        length archive = r * k \<and> distinct (map fst archive) \<and>
        (\<forall>row col. row < r \<and> col < k \<longrightarrow>
           map_of archive (imageName (row * k + col + 1)) =
             Some (buf \<lparr>regionLeft = int col * \<lfloor>real W / real k\<rfloor>,
                        regionTop = int row * \<lfloor>real H / real r\<rfloor>,
                        regionWidth = \<lfloor>real W / real k\<rfloor>,
                        regionHeight = \<lfloor>real H / real r\<rfloor>\<rparr>))"
      by (intro exI [of _ archive]) simp
  qed
  have failed: ?failed
  proof
    assume "\<exists>g\<in>set (map snd (serverRegions W H (int r) (int k))).
        extractRegion sharp f g = None"
    then obtain g where "g \<in> set (map snd (serverRegions W H (int r) (int k)))"
      "extractRegion sharp f g = None" by blast
    with request pos show "POST sharp order form = Json 500 ''Failed to process image''"
      by (intro POST_rejected [of form f "int r" "int k" sharp W H g]) simp_all
  qed
  have dims: ?dims
  proof
    assume small: "W < 2 ^ 32 \<and> H < 2 ^ 32"
    have "real W / real k \<le> real W" "real H / real r \<le> real H"
      using grid by (simp_all add: divide_le_eq mult_le_cancel_left1 pos_divide_le_eq)
    moreover have "real W < real (2 ^ 32)" "real H < real (2 ^ 32)"
      using small by (simp_all only: of_nat_less_iff)
    then have "real W < 2 ^ 32" "real H < 2 ^ 32"
      by (simp_all only: of_nat_power of_nat_numeral)
    ultimately have "real W / real k < 2 ^ 32" "real H / real r < 2 ^ 32" by linarith+
    then show "int (toUnsignedLong (real W / real k)) = \<lfloor>real W / real k\<rfloor> \<and>
        int (toUnsignedLong (real H / real r)) = \<lfloor>real H / real r\<rfloor>"
      by (simp add: toUnsignedLong_exact)
  qed
  have exact: ?exact
  proof
    assume d: "k dvd W \<and> r dvd H"
    then show "real_of_int \<lfloor>real W / real k\<rfloor> = real W / real k \<and>
        real_of_int \<lfloor>real H / real r\<rfloor> = real H / real r \<and>
        map (cellOfRegion \<circ> snd) (serverRegions W H (int r) (int k)) = cellsIntoGrid W H r k"
      unfolding fw fh by (simp add: exact_quotient regions_are_cells_when_exact)
  qed
  show ?thesis
    by (rule conjI [OF client conjI [OF server conjI [OF failed conjI [OF dims exact]]]])
qed

theorem uniform_backends_agree_when_exact_witness:
  "(\<exists>urls. cutImageIntoGrid pairingBrowser 1 2 = Inr urls \<and> length urls = 2 \<and>
      urls ! 1 = ((150, 300), \<lparr>startX = 150, startY = 0, cellWidth = 150, cellHeight = 300\<rparr>)) \<and>
   (\<exists>archive.
      POST (tenByTen\<lparr>metadata := \<lambda>f. Some (Some 300, Some 300)\<rparr>) [1, 0]
        \<lparr>imageField = Some (), rowsField = Some 1, columnsField = Some 2\<rparr> = ZipBody archive \<and>
      length archive = 2 \<and>
      map_of archive ''image_2.png'' =
        Some \<lparr>regionLeft = 150, regionTop = 0, regionWidth = 150, regionHeight = 300\<rparr>) \<and>
   POST (tenByTen\<lparr>metadata := \<lambda>f. Some (Some 300, Some 300), extractRegion := \<lambda>f g. None\<rparr>)
     [1, 0] \<lparr>imageField = Some (), rowsField = Some 1, columnsField = Some 2\<rparr> =
     Json 500 ''Failed to process image'' \<and>
   int (toUnsignedLong (real 300 / real 2)) = 150 \<and>
   map (cellOfRegion \<circ> snd) (serverRegions 300 300 (int 1) (int 2)) = cellsIntoGrid 300 300 1 2"
proof -
  let ?sharp = "tenByTen\<lparr>metadata := \<lambda>f. Some (Some 300, Some 300)\<rparr>"
  let ?broken = "tenByTen\<lparr>metadata := \<lambda>f. Some (Some 300, Some 300),
                   extractRegion := \<lambda>f g. None\<rparr>"
  let ?form = "\<lparr>imageField = Some (), rowsField = Some 1, columnsField = Some 2\<rparr>"
  have grid: "(0::nat) < 1" "(0::nat) < 2" by simp_all
  have client: "imageLoads pairingBrowser" "hasContext pairingBrowser"
    "imgWidth pairingBrowser = 300" "imgHeight pairingBrowser = 300"
    by (simp_all add: pairingBrowser_def)
  have form: "imageField ?form = Some ()" "rowsField ?form = Some (int 1)"
    "columnsField ?form = Some (int 2)"
    by simp_all
  have meta: "metadata ?sharp () = Some (Some 300, Some 300)" "(0::nat) < 300" "(0::nat) < 300"
    by simp_all
  have meta': "metadata ?broken () = Some (Some 300, Some 300)" by simp
  have order: "distinct [1, 0::nat]" "set [1, 0::nat] = {..<1 * 2}" by auto
  note good = uniform_backends_agree_when_exact [OF grid client form meta order, where buf = id]
  note bad = uniform_backends_agree_when_exact [OF grid client form meta' meta(2,3) order,
      where buf = id]
  from good obtain urls where cut: "cutImageIntoGrid pairingBrowser 1 2 = Inr urls"
    and n: "length urls = 1 * 2"
    and u: "\<forall>row col. row < 1 \<and> col < 2 \<longrightarrow>
        urls ! (row * 2 + col) =
          toDataURL pairingBrowser
            (toUnsignedLong (real 300 / real 2), toUnsignedLong (real 300 / real 1))
            \<lparr>startX = real col * (real 300 / real 2), startY = real row * (real 300 / real 1),
             cellWidth = real 300 / real 2, cellHeight = real 300 / real 1\<rparr>"
    by blast
  have sizes: "toUnsignedLong 150 = 150" "toUnsignedLong 300 = 300"
    by (simp_all add: toUnsignedLong_def)
  from u [rule_format, of 0 1]
  have u1: "urls ! 1 =
      ((150, 300), \<lparr>startX = 150, startY = 0, cellWidth = 150, cellHeight = 300\<rparr>)"
    by (simp add: pairingBrowser_def sizes)
  have regs: "map snd (serverRegions 300 300 (int 1) (int 2)) =
      [\<lparr>regionLeft = 0, regionTop = 0, regionWidth = 150, regionHeight = 300\<rparr>,
       \<lparr>regionLeft = 150, regionTop = 0, regionWidth = 150, regionHeight = 300\<rparr>]"
    by (simp add: serverRegions_grid upt_conv_Cons)
  have ok: "\<forall>g\<in>set (map snd (serverRegions 300 300 (int 1) (int 2))).
      extractRegion ?sharp () g = Some (id g)"
    by (simp add: tenByTen_def)
  from good ok obtain archive where post: "POST ?sharp [1, 0] ?form = ZipBody archive"
    and m: "length archive = 1 * 2"
    and l: "\<forall>row col. row < 1 \<and> col < 2 \<longrightarrow>
        map_of archive (imageName (row * 2 + col + 1)) =
          Some (id \<lparr>regionLeft = int col * \<lfloor>real 300 / real 2\<rfloor>,
                     regionTop = int row * \<lfloor>real 300 / real 1\<rfloor>,
                     regionWidth = \<lfloor>real 300 / real 2\<rfloor>,
                     regionHeight = \<lfloor>real 300 / real 1\<rfloor>\<rparr>)"
    by blast
  from l [rule_format, of 0 1]
  have second: "map_of archive ''image_2.png'' =
      Some \<lparr>regionLeft = 150, regionTop = 0, regionWidth = 150, regionHeight = 300\<rparr>"
    by (simp add: imageName_2 imageName_2_Suc)
  have "\<exists>g\<in>set (map snd (serverRegions 300 300 (int 1) (int 2))).
      extractRegion ?broken () g = None"
    unfolding regs by auto
  with bad have failed: "POST ?broken [1, 0] ?form = Json 500 ''Failed to process image''"
    by blast
  have small: "(300::nat) < 2 ^ 32 \<and> (300::nat) < 2 ^ 32" by simp
  from good small have "int (toUnsignedLong (real 300 / real 2)) = \<lfloor>real 300 / real 2\<rfloor>"
    by blast
  then have dims: "int (toUnsignedLong (real 300 / real 2)) = 150" by simp
  have dv: "(2::nat) dvd 300 \<and> (1::nat) dvd 300" by simp
  from good dv have same:
    "map (cellOfRegion \<circ> snd) (serverRegions 300 300 (int 1) (int 2)) = cellsIntoGrid 300 300 1 2"
    by blast
  from cut n u1 have c: "\<exists>urls. cutImageIntoGrid pairingBrowser 1 2 = Inr urls \<and>
      length urls = 2 \<and>
      urls ! 1 = ((150, 300), \<lparr>startX = 150, startY = 0, cellWidth = 150, cellHeight = 300\<rparr>)"
    by (intro exI [of _ urls]) simp
  from post m second have s: "\<exists>archive. POST ?sharp [1, 0] ?form = ZipBody archive \<and>
      length archive = 2 \<and>
      map_of archive ''image_2.png'' =
        Some \<lparr>regionLeft = 150, regionTop = 0, regionWidth = 150, regionHeight = 300\<rparr>"
    by (intro exI [of _ archive]) simp
  show ?thesis
    by (rule conjI [OF c conjI [OF s conjI [OF failed conjI [OF dims same]]]])
qed

end
